theory Spec2Isabelle
  imports Complex_Main
begin

section \<open>Honey-token attribution system: the detection engine\<close>

text \<open>
  The repository holds three copies of the detection logic: the CloudWatch analyzer
  (\<^verbatim>\<open>src/analysis/cloudwatch_analyzer.py\<close>), the scheduled Lambda variant
  (\<^verbatim>\<open>lambda_function.py\<close>) and the extended pattern detectors
  (\<^verbatim>\<open>src/analysis/pattern_detector.py\<close>), plus the dispatch of alerts in
  \<^verbatim>\<open>src/main.py\<close>. Each Python function below becomes a HOL function of the same
  name (the Lambda copies carry the prefix \<open>lambda_\<close>).
\<close>

subsection \<open>Python values\<close>

text \<open>
  A \<^verbatim>\<open>datetime\<close> is an instant, counted in microseconds since the epoch; a
  \<^verbatim>\<open>timedelta\<close> is a difference of two instants. \<^verbatim>\<open>total_seconds()\<close> is a Python
  float; the model computes with exact rationals instead.
\<close>

datatype py_error = TypeError | AttributeError | ZeroDivisionError | IndexError

type_synonym datetime = int

definition total_seconds :: "int \<Rightarrow> rat" where
  "total_seconds d = of_int d / 1000000"

definition hour :: "datetime \<Rightarrow> int" where
  "hour t = (t div 3600000000) mod 24"

text \<open>Python's \<^verbatim>\<open>xs[i]\<close>: a negative index counts from the end, out of range raises.\<close>

definition py_index :: "'a list \<Rightarrow> int \<Rightarrow> py_error + 'a" where
  "py_index xs i =
     (if 0 \<le> i \<and> i < int (length xs) then Inr (xs ! nat i)
      else if i < 0 \<and> - int (length xs) \<le> i then Inr (xs ! nat (int (length xs) + i))
      else Inl IndexError)"

text \<open>\<^verbatim>\<open>range(n)\<close>, empty when \<open>n \<le> 0\<close>.\<close>

definition py_range :: "int \<Rightarrow> int list" where
  "py_range n = map int [0..<nat n]"

text \<open>\<^verbatim>\<open>str.lower()\<close> on ASCII text, and the substring test \<^verbatim>\<open>pattern in text\<close>.\<close>

definition lower_char :: "char \<Rightarrow> char" where
  "lower_char c =
     (let n = (of_char c :: nat) in if 65 \<le> n \<and> n \<le> 90 then char_of (n + 32) else c)"

definition lower :: "string \<Rightarrow> string" where
  "lower s = map lower_char s"

fun startswith :: "string \<Rightarrow> string \<Rightarrow> bool" where
  "startswith s [] = True"
| "startswith [] (p # ps) = False"
| "startswith (c # cs) (p # ps) = (c = p \<and> startswith cs ps)"

fun str_in :: "string \<Rightarrow> string \<Rightarrow> bool" where
  "str_in p [] = (p = [])"
| "str_in p (c # cs) = (startswith (c # cs) p \<or> str_in p cs)"

text \<open>\<^verbatim>\<open>str(n)\<close> for an integer.\<close>

definition digit_char :: "nat \<Rightarrow> char" where
  "digit_char d = ''0123456789'' ! d"

function str_nat :: "nat \<Rightarrow> string" where
  "str_nat n = (if n < 10 then [digit_char n] else str_nat (n div 10) @ [digit_char (n mod 10)])"
  by pat_completeness auto
termination
  by (relation "measure id") auto

declare str_nat.simps [simp del]

definition str_int :: "int \<Rightarrow> string" where
  "str_int i = (if i < 0 then CHR ''-'' # str_nat (nat (- i)) else str_nat (nat i))"

subsection \<open>Dictionaries of lists\<close>

text \<open>
  Every detector first groups the batch in a \<^verbatim>\<open>defaultdict(list)\<close> and then walks
  \<^verbatim>\<open>.items()\<close>. A Python dictionary keeps its keys in the order of first insertion, so
  the dictionary is an association list in that order. \<open>group_append d k v\<close> is
  \<^verbatim>\<open>d[k].append(v)\<close>.
\<close>

fun group_append :: "('k \<times> 'v list) list \<Rightarrow> 'k \<Rightarrow> 'v \<Rightarrow> ('k \<times> 'v list) list" where
  "group_append [] k v = [(k, [v])]"
| "group_append ((k', vs) # d) k v =
     (if k' = k then (k', vs @ [v]) # d else (k', vs) # group_append d k v)"

text \<open>
  The grouping loop \<^verbatim>\<open>for log in logs: if P(log): d[key(log)].append(val(log))\<close>.
\<close>

definition collect :: "('a \<Rightarrow> bool) \<Rightarrow> ('a \<Rightarrow> 'k) \<Rightarrow> ('a \<Rightarrow> 'v) \<Rightarrow> 'a list \<Rightarrow> ('k \<times> 'v list) list" where
  "collect P key val logs =
     foldl (\<lambda>d l. if P l then group_append d (key l) (val l) else d) [] logs"

subsection \<open>Log entries and security events\<close>

text \<open>
  A log entry of the CloudWatch analyzer and of the Lambda variant, as their parsers
  build it. The field \<open>log_timestamp\<close> is the entry's \<^verbatim>\<open>'timestamp'\<close> string after
  \<^verbatim>\<open>datetime.fromisoformat\<close>: \<open>None\<close> when the text is absent or does not parse (the
  detectors catch that exception and skip the entry). The parsed times of a batch are
  instants of one time scale (UTC), so any two of them compare. The analyzer's parser
  stores \<^verbatim>\<open>log_entry.get(...)\<close>, which is \<^verbatim>\<open>None\<close> for a field the query result lacks
  (the Lambda's parser always builds strings). The detectors call \<^verbatim>\<open>.lower()\<close> on the
  user agent, so \<open>user_agent\<close> is optional, \<open>None\<close> being Python's \<^verbatim>\<open>None\<close>. The other
  fields are only compared or copied into an event, which raises for no value; the
  model keeps them as strings.
\<close>

record s3_log =
  log_timestamp :: "datetime option"
  bucket_name :: string
  object_name :: string
  remote_ip :: string
  user_agent :: "string option"
  operation :: string
  http_status :: string

datatype detail = DInt int | DStr string | DStrs "string list" | DNum rat | DTime datetime | DNone

text \<open>
  \<^verbatim>\<open>log.get('user_agent', 'Unknown')\<close>: every entry has the key, so the default is never
  taken and the value is the stored one, \<^verbatim>\<open>None\<close> included.
\<close>

definition get_user_agent :: "s3_log \<Rightarrow> detail" where
  "get_user_agent l = (case user_agent l of None \<Rightarrow> DNone | Some ua \<Rightarrow> DStr ua)"

text \<open>The dataclass \<^verbatim>\<open>SecurityEvent\<close> of \<^verbatim>\<open>cloudwatch_analyzer.py\<close> and \<^verbatim>\<open>lambda_function.py\<close>.\<close>

record SecurityEvent =
  event_type :: string
  severity :: string
  timestamp :: datetime
  ip_address :: string
  resource :: string
  details :: "(string \<times> detail) list"
  region :: string

text \<open>
  \<^verbatim>\<open>datetime.now(pytz.UTC)\<close> reads the wall clock. A detector run is given the clock as
  the function from the number of the reading to the instant read.
\<close>

type_synonym clock = "nat \<Rightarrow> datetime"

definition events_for :: "string \<Rightarrow> SecurityEvent list \<Rightarrow> SecurityEvent list" where
  "events_for ip evs = filter (\<lambda>e. ip_address e = ip) evs"

subsection \<open>CloudWatch analyzer\<close>

text \<open>
  \<^verbatim>\<open>detect_bulk_downloads\<close>: the entries whose operation is \<^verbatim>\<open>REST.GET.OBJECT\<close> are
  grouped by \<^verbatim>\<open>remote_ip\<close>; a group of at least \<^verbatim>\<open>bulk_download_threshold\<close> entries
  gives one event. A group of the dictionary is never empty (lemma \<open>collect_nonempty\<close>),
  so \<^verbatim>\<open>downloads[0]\<close> is its head.
\<close>

fun bulk_loop :: "int \<Rightarrow> string \<Rightarrow> clock \<Rightarrow> (string \<times> s3_log list) list \<Rightarrow> SecurityEvent list \<Rightarrow> SecurityEvent list" where
  "bulk_loop thr reg now [] events = events"
| "bulk_loop thr reg now ((ip, downloads) # d) events =
     (if int (length downloads) \<ge> thr
      then bulk_loop thr reg now d (events @
             [\<lparr>event_type = ''bulk_download'', severity = ''high'',
               timestamp = now (length events), ip_address = ip,
               resource = bucket_name (hd downloads),
               details = [(''download_count'', DInt (int (length downloads))),
                          (''files'', DStrs (map object_name (take 10 downloads))),
                          (''user_agent'', get_user_agent (hd downloads))],
               region = reg\<rparr>])
      else bulk_loop thr reg now d events)"

definition detect_bulk_downloads :: "int \<Rightarrow> string \<Rightarrow> clock \<Rightarrow> s3_log list \<Rightarrow> SecurityEvent list" where
  "detect_bulk_downloads bulk_download_threshold reg now logs =
     bulk_loop bulk_download_threshold reg now
       (collect (\<lambda>l. operation l = ''REST.GET.OBJECT'') remote_ip id logs) []"

text \<open>
  \<^verbatim>\<open>detect_rapid_access\<close>: per address the parsed times (\<open>tms\<close>) are sorted and the windows of
  \<^verbatim>\<open>rapid_access_threshold\<close> consecutive entries are tried from the left; the first
  window that spans at most \<^verbatim>\<open>rapid_access_window\<close> seconds gives the event and ends the
  scan of that address (\<^verbatim>\<open>break\<close>). The two list reads are Python's, so they can raise.
\<close>

fun scan_windows :: "int \<Rightarrow> int \<Rightarrow> datetime list \<Rightarrow> int list \<Rightarrow> py_error + (datetime \<times> datetime) option" where
  "scan_windows thr win tms [] = Inr None"
| "scan_windows thr win tms (i # is) =
     (case py_index tms i of
        Inl e \<Rightarrow> Inl e
      | Inr window_start \<Rightarrow>
          (case py_index tms (i + thr - 1) of
             Inl e \<Rightarrow> Inl e
           | Inr window_end \<Rightarrow>
               if total_seconds (window_end - window_start) \<le> of_int win
               then Inr (Some (window_start, window_end))
               else scan_windows thr win tms is))"

definition first_window :: "int \<Rightarrow> int \<Rightarrow> datetime list \<Rightarrow> py_error + (datetime \<times> datetime) option" where
  "first_window thr win tms =
     scan_windows thr win tms (py_range (int (length tms) - thr + 1))"

fun rapid_loop :: "int \<Rightarrow> int \<Rightarrow> string \<Rightarrow> clock \<Rightarrow> (string \<times> datetime list) list \<Rightarrow> SecurityEvent list \<Rightarrow> py_error + SecurityEvent list" where
  "rapid_loop thr win reg now [] events = Inr events"
| "rapid_loop thr win reg now ((ip, tms) # d) events =
     (case first_window thr win (sort tms) of
        Inl e \<Rightarrow> Inl e
      | Inr None \<Rightarrow> rapid_loop thr win reg now d events
      | Inr (Some (window_start, window_end)) \<Rightarrow>
          rapid_loop thr win reg now d (events @
            [\<lparr>event_type = ''rapid_access'', severity = ''medium'',
              timestamp = now (length events), ip_address = ip,
              resource = ''multiple'',
              details = [(''access_count'', DInt thr),
                         (''time_window'', DStr (str_int win @ '' seconds'')),
                         (''first_access'', DTime window_start),
                         (''last_access'', DTime window_end)],
              region = reg\<rparr>]))"

definition access_times :: "s3_log list \<Rightarrow> (string \<times> datetime list) list" where
  "access_times logs = collect (\<lambda>l. log_timestamp l \<noteq> None) remote_ip (\<lambda>l. the (log_timestamp l)) logs"

definition detect_rapid_access :: "int \<Rightarrow> int \<Rightarrow> string \<Rightarrow> clock \<Rightarrow> s3_log list \<Rightarrow> py_error + SecurityEvent list" where
  "detect_rapid_access rapid_access_threshold rapid_access_window reg now logs =
     rapid_loop rapid_access_threshold rapid_access_window reg now (access_times logs) []"

text \<open>
  \<^verbatim>\<open>detect_abnormal_hours_access\<close>: one event per entry whose hour is in
  \<^verbatim>\<open>range(0, 6)\<close>, stamped with the entry's own time.
\<close>

fun abnormal_loop :: "string \<Rightarrow> s3_log list \<Rightarrow> SecurityEvent list \<Rightarrow> SecurityEvent list" where
  "abnormal_loop reg [] events = events"
| "abnormal_loop reg (l # logs) events =
     (case log_timestamp l of
        None \<Rightarrow> abnormal_loop reg logs events
      | Some t \<Rightarrow>
          if 0 \<le> hour t \<and> hour t < 6
          then abnormal_loop reg logs (events @
                 [\<lparr>event_type = ''abnormal_hours_access'', severity = ''medium'',
                   timestamp = t, ip_address = remote_ip l, resource = object_name l,
                   details = [(''access_time'', DTime t), (''operation'', DStr (operation l))],
                   region = reg\<rparr>])
          else abnormal_loop reg logs events)"

definition detect_abnormal_hours_access :: "string \<Rightarrow> s3_log list \<Rightarrow> SecurityEvent list" where
  "detect_abnormal_hours_access reg logs = abnormal_loop reg logs []"

text \<open>
  \<^verbatim>\<open>detect_geolocation_anomaly\<close> is the analyzer's user-agent detector: one event per
  entry whose lower-cased user agent contains one of six keywords. The entry has the
  key, so \<^verbatim>\<open>log.get('user_agent', '')\<close> is the stored value; on \<^verbatim>\<open>None\<close> the call of
  \<^verbatim>\<open>.lower()\<close> raises \<^verbatim>\<open>AttributeError\<close>, nothing catches it, and the events made so far
  are lost with the call.
\<close>

definition suspicious_patterns :: "string list" where
  "suspicious_patterns = [''curl'', ''wget'', ''python'', ''bot'', ''crawler'', ''scanner'']"

definition suspicious_agent :: "string \<Rightarrow> bool" where
  "suspicious_agent ua = list_ex (\<lambda>p. str_in p (lower ua)) suspicious_patterns"

fun geolocation_loop :: "string \<Rightarrow> clock \<Rightarrow> s3_log list \<Rightarrow> SecurityEvent list \<Rightarrow> py_error + SecurityEvent list" where
  "geolocation_loop reg now [] events = Inr events"
| "geolocation_loop reg now (l # logs) events =
     (case user_agent l of
        None \<Rightarrow> Inl AttributeError
      | Some ua \<Rightarrow>
          if suspicious_agent ua
          then geolocation_loop reg now logs (events @
                 [\<lparr>event_type = ''suspicious_user_agent'', severity = ''medium'',
                   timestamp = now (length events), ip_address = remote_ip l,
                   resource = object_name l,
                   details = [(''user_agent'', DStr ua),
                              (''reason'', DStr ''Automated tool detected'')],
                   region = reg\<rparr>])
          else geolocation_loop reg now logs events)"

definition detect_geolocation_anomaly :: "string \<Rightarrow> clock \<Rightarrow> s3_log list \<Rightarrow> py_error + SecurityEvent list" where
  "detect_geolocation_anomaly reg now logs = geolocation_loop reg now logs []"

text \<open>
  \<^verbatim>\<open>analyze_logs\<close>, from the batch the log query returned: an empty batch gives the empty
  dictionary, otherwise the four detectors run in turn, and an exception of one of
  them ends the call. The clock goes on from one detector to the next: each reads it
  once per event it creates. The function then stores every event; the store is
  \<open>store_event_in_dynamodb\<close> below, and the result does not depend on it.
\<close>

definition later :: "clock \<Rightarrow> nat \<Rightarrow> clock" where
  "later now n = (\<lambda>k. now (n + k))"

definition analyze_logs :: "int \<Rightarrow> int \<Rightarrow> int \<Rightarrow> string \<Rightarrow> clock \<Rightarrow> s3_log list \<Rightarrow> py_error + (string \<times> SecurityEvent list) list" where
  "analyze_logs bulk_download_threshold rapid_access_threshold rapid_access_window reg now logs =
     (if logs = [] then Inr []
      else
        let bulk = detect_bulk_downloads bulk_download_threshold reg now logs in
        case detect_rapid_access rapid_access_threshold rapid_access_window reg
               (later now (length bulk)) logs of
          Inl e \<Rightarrow> Inl e
        | Inr rapid \<Rightarrow>
            let abnormal = detect_abnormal_hours_access reg logs in
            case detect_geolocation_anomaly reg (later now (length bulk + length rapid)) logs of
              Inl e \<Rightarrow> Inl e
            | Inr agents \<Rightarrow>
                Inr [(''bulk_downloads'', bulk), (''rapid_access'', rapid),
                     (''abnormal_hours'', abnormal), (''suspicious_agents'', agents)])"

text \<open>
  \<^verbatim>\<open>store_event_in_dynamodb\<close>. The table is a dictionary from \<^verbatim>\<open>event_id\<close> to item;
  \<^verbatim>\<open>put_item\<close> writes unconditionally and raises when the service cannot be reached.
  The item repeats the event's fields (the timestamp as ISO text, the details as JSON
  text); the model stores the event itself under the id. The id is an f-string around
  \<^verbatim>\<open>event.timestamp.timestamp()\<close>, a float, which Python formats with \<^verbatim>\<open>str\<close>; the
  functions below take that rendering as the argument \<open>str_seconds\<close>. \<open>timestamp_str\<close> is
  the rendering for the instants from \<open>0.0001\<close> seconds to \<open>2 ^ 33\<close> seconds (the year
  2242) after the epoch, where the float prints as the seconds with up to six decimals;
  outside that range Python prints an exponent or a rounded value, and \<open>timestamp_str\<close>
  is not used there.
\<close>

definition frac_digits :: "nat \<Rightarrow> string" where
  "frac_digits u =
     (let ds = map (\<lambda>k. digit_char ((u div 10 ^ k) mod 10)) [5, 4, 3, 2, 1, 0];
          stripped = rev (dropWhile (\<lambda>c. c = CHR ''0'') (rev ds))
      in if stripped = [] then ''0'' else stripped)"

definition timestamp_str :: "datetime \<Rightarrow> string" where
  "timestamp_str t =
     (let a = nat \<bar>t\<bar>
      in (if t < 0 then ''-'' else []) @ str_nat (a div 1000000) @ ''.'' @ frac_digits (a mod 1000000))"

record dynamo_table =
  rows :: "string \<rightharpoonup> SecurityEvent"
  reachable :: bool

datatype client_error = ClientError

definition put_item :: "dynamo_table \<Rightarrow> string \<Rightarrow> SecurityEvent \<Rightarrow> client_error + dynamo_table" where
  "put_item t k v = (if reachable t then Inr (t\<lparr>rows := (rows t)(k \<mapsto> v)\<rparr>) else Inl ClientError)"

definition event_id :: "(datetime \<Rightarrow> string) \<Rightarrow> SecurityEvent \<Rightarrow> string" where
  "event_id str_seconds e =
     event_type e @ ''_'' @ str_seconds (timestamp e) @ ''_'' @ ip_address e"

definition store_event_in_dynamodb :: "(datetime \<Rightarrow> string) \<Rightarrow> dynamo_table \<Rightarrow> SecurityEvent \<Rightarrow> dynamo_table" where
  "store_event_in_dynamodb str_seconds t e =
     (case put_item t (event_id str_seconds e) e of Inl err \<Rightarrow> t | Inr t' \<Rightarrow> t')"

subsection \<open>Lambda variant\<close>

text \<open>
  \<open>group_add d k v\<close> is \<^verbatim>\<open>d[k].add(v)\<close> on a \<^verbatim>\<open>defaultdict(set)\<close>; the set is kept
  as the list of its elements in the order they were first added. Python iterates a
  set of strings in an order that follows their hashes, which change from one
  interpreter run to the next; \<^verbatim>\<open>list(files)\<close> is therefore \<open>set_list files\<close> for a function
  \<open>set_list\<close> that the detector is given, the order of iteration of that run.
\<close>

fun group_add :: "('k \<times> 'v list) list \<Rightarrow> 'k \<Rightarrow> 'v \<Rightarrow> ('k \<times> 'v list) list" where
  "group_add [] k v = [(k, [v])]"
| "group_add ((k', vs) # d) k v =
     (if k' = k then (k', if v \<in> set vs then vs else vs @ [v]) # d
      else (k', vs) # group_add d k v)"

fun lambda_bulk_loop :: "(string list \<Rightarrow> string list) \<Rightarrow> string \<Rightarrow> clock \<Rightarrow> (string \<times> string list) list \<Rightarrow> SecurityEvent list \<Rightarrow> SecurityEvent list" where
  "lambda_bulk_loop set_list reg now [] events = events"
| "lambda_bulk_loop set_list reg now ((ip, files) # d) events =
     (if length files \<ge> 5
      then lambda_bulk_loop set_list reg now d (events @
             [\<lparr>event_type = ''bulk_download'', severity = ''critical'',
               timestamp = now (length events), ip_address = ip,
               resource = str_nat (length files) @ '' files'',
               details = [(''files'', DStrs (take 10 (set_list files))),
                          (''total'', DInt (int (length files)))],
               region = reg\<rparr>])
      else lambda_bulk_loop set_list reg now d events)"

definition lambda_detect_bulk_downloads :: "(string list \<Rightarrow> string list) \<Rightarrow> string \<Rightarrow> clock \<Rightarrow> s3_log list \<Rightarrow> SecurityEvent list" where
  "lambda_detect_bulk_downloads set_list reg now logs =
     lambda_bulk_loop set_list reg now
       (foldl (\<lambda>d l. group_add d (remote_ip l) (object_name l)) [] logs) []"

fun lambda_rapid_loop :: "string \<Rightarrow> clock \<Rightarrow> (string \<times> datetime list) list \<Rightarrow> SecurityEvent list \<Rightarrow> py_error + SecurityEvent list" where
  "lambda_rapid_loop reg now [] events = Inr events"
| "lambda_rapid_loop reg now ((ip, tms) # d) events =
     (case scan_windows 10 300 (sort tms) (py_range (int (length tms) - 9)) of
        Inl e \<Rightarrow> Inl e
      | Inr None \<Rightarrow> lambda_rapid_loop reg now d events
      | Inr (Some (window_start, window_end)) \<Rightarrow>
          lambda_rapid_loop reg now d (events @
            [\<lparr>event_type = ''rapid_access'', severity = ''high'',
              timestamp = now (length events), ip_address = ip,
              resource = ''multiple'',
              details = [(''access_count'', DInt 10),
                         (''time_window'', DStr ''5 minutes''),
                         (''first_access'', DTime window_start),
                         (''last_access'', DTime window_end)],
              region = reg\<rparr>]))"

definition lambda_detect_rapid_access :: "string \<Rightarrow> clock \<Rightarrow> s3_log list \<Rightarrow> py_error + SecurityEvent list" where
  "lambda_detect_rapid_access reg now logs = lambda_rapid_loop reg now (access_times logs) []"

fun lambda_abnormal_loop :: "string \<Rightarrow> clock \<Rightarrow> (string \<times> s3_log list) list \<Rightarrow> SecurityEvent list \<Rightarrow> SecurityEvent list" where
  "lambda_abnormal_loop reg now [] events = events"
| "lambda_abnormal_loop reg now ((ip, access_logs) # d) events =
     (if length access_logs \<ge> 3
      then lambda_abnormal_loop reg now d (events @
             [\<lparr>event_type = ''abnormal_hours_access'', severity = ''medium'',
               timestamp = now (length events), ip_address = ip,
               resource = ''multiple'',
               details = [(''access_count'', DInt (int (length access_logs))),
                          (''time_range'', DStr ''00:00-06:00 UTC''),
                          (''files_accessed'', DStrs (map object_name (take 5 access_logs)))],
               region = reg\<rparr>])
      else lambda_abnormal_loop reg now d events)"

definition abnormal_hour :: "s3_log \<Rightarrow> bool" where
  "abnormal_hour l =
     (case log_timestamp l of None \<Rightarrow> False | Some t \<Rightarrow> 0 \<le> hour t \<and> hour t < 6)"

definition lambda_detect_abnormal_hours :: "string \<Rightarrow> clock \<Rightarrow> s3_log list \<Rightarrow> SecurityEvent list" where
  "lambda_detect_abnormal_hours reg now logs =
     lambda_abnormal_loop reg now (collect abnormal_hour remote_ip id logs) []"

definition lambda_suspicious_patterns :: "string list" where
  "lambda_suspicious_patterns =
     [''curl'', ''wget'', ''python'', ''bot'', ''crawler'', ''scanner'', ''script'']"

definition lambda_suspicious_agent :: "string \<Rightarrow> bool" where
  "lambda_suspicious_agent ua = list_ex (\<lambda>p. str_in p (lower ua)) lambda_suspicious_patterns"

fun lambda_agents_loop :: "string \<Rightarrow> clock \<Rightarrow> (string \<times> s3_log list) list \<Rightarrow> SecurityEvent list \<Rightarrow> SecurityEvent list" where
  "lambda_agents_loop reg now [] events = events"
| "lambda_agents_loop reg now ((ip, sus_logs) # d) events =
     lambda_agents_loop reg now d (events @
       [\<lparr>event_type = ''suspicious_user_agent'', severity = ''medium'',
         timestamp = now (length events), ip_address = ip,
         resource = str_nat (length sus_logs) @ '' requests'',
         details = [(''user_agent'', get_user_agent (hd sus_logs)),
                    (''request_count'', DInt (int (length sus_logs))),
                    (''reason'', DStr ''Automated tool detected'')],
         region = reg\<rparr>])"

text \<open>
  The grouping loop of \<^verbatim>\<open>detect_suspicious_user_agents\<close> calls \<^verbatim>\<open>.lower()\<close> on every
  entry's user agent before the first event is made, so one entry without user agent
  ends the call with \<^verbatim>\<open>AttributeError\<close>, as in the analyzer.
\<close>

definition lambda_suspicious_entry :: "s3_log \<Rightarrow> bool" where
  "lambda_suspicious_entry l =
     (case user_agent l of None \<Rightarrow> False | Some ua \<Rightarrow> lambda_suspicious_agent ua)"

definition lambda_detect_suspicious_user_agents :: "string \<Rightarrow> clock \<Rightarrow> s3_log list \<Rightarrow> py_error + SecurityEvent list" where
  "lambda_detect_suspicious_user_agents reg now logs =
     (if list_ex (\<lambda>l. user_agent l = None) logs then Inl AttributeError
      else Inr (lambda_agents_loop reg now (collect lambda_suspicious_entry remote_ip id logs) []))"

fun lambda_failed_loop :: "string \<Rightarrow> clock \<Rightarrow> (string \<times> s3_log list) list \<Rightarrow> SecurityEvent list \<Rightarrow> SecurityEvent list" where
  "lambda_failed_loop reg now [] events = events"
| "lambda_failed_loop reg now ((ip, failure_logs) # d) events =
     (if length failure_logs \<ge> 5
      then lambda_failed_loop reg now d (events @
             [\<lparr>event_type = ''failed_access_attempts'', severity = ''high'',
               timestamp = now (length events), ip_address = ip,
               resource = ''multiple'',
               details = [(''failure_count'', DInt (int (length failure_logs))),
                          (''status_codes'', DStrs (map http_status (take 10 failure_logs))),
                          (''attempted_resources'', DStrs (map object_name (take 5 failure_logs)))],
               region = reg\<rparr>])
      else lambda_failed_loop reg now d events)"

definition lambda_detect_failed_access_attempts :: "string \<Rightarrow> clock \<Rightarrow> s3_log list \<Rightarrow> SecurityEvent list" where
  "lambda_detect_failed_access_attempts reg now logs =
     lambda_failed_loop reg now
       (collect (\<lambda>l. http_status l \<in> set [''403'', ''404'', ''401'']) remote_ip id logs) []"

text \<open>
  The Lambda's \<^verbatim>\<open>store_event_in_dynamodb\<close> builds the id from the wall clock at the time
  of the write, not from the event, and reports whether the write went through.
\<close>

definition lambda_event_id :: "(datetime \<Rightarrow> string) \<Rightarrow> datetime \<Rightarrow> SecurityEvent \<Rightarrow> string" where
  "lambda_event_id str_seconds wall e =
     event_type e @ ''_'' @ str_seconds wall @ ''_'' @ ip_address e"

definition lambda_store_event_in_dynamodb :: "(datetime \<Rightarrow> string) \<Rightarrow> datetime \<Rightarrow> dynamo_table \<Rightarrow> SecurityEvent \<Rightarrow> bool \<times> dynamo_table" where
  "lambda_store_event_in_dynamodb str_seconds wall t e =
     (case put_item t (lambda_event_id str_seconds wall e) e of
        Inl err \<Rightarrow> (False, t)
      | Inr t' \<Rightarrow> (True, t'))"

definition lambda_analyze_logs :: "(string list \<Rightarrow> string list) \<Rightarrow> string \<Rightarrow> clock \<Rightarrow> s3_log list \<Rightarrow> py_error + (string \<times> SecurityEvent list) list" where
  "lambda_analyze_logs set_list reg now logs =
     (if logs = [] then Inr []
      else
        let bulk = lambda_detect_bulk_downloads set_list reg now logs in
        case lambda_detect_rapid_access reg (later now (length bulk)) logs of
          Inl e \<Rightarrow> Inl e
        | Inr rapid \<Rightarrow>
            let n2 = length bulk + length rapid;
                abnormal = lambda_detect_abnormal_hours reg (later now n2) logs;
                n3 = n2 + length abnormal
            in case lambda_detect_suspicious_user_agents reg (later now n3) logs of
                 Inl e \<Rightarrow> Inl e
               | Inr agents \<Rightarrow>
                   let n4 = n3 + length agents;
                       failed = lambda_detect_failed_access_attempts reg (later now n4) logs
                   in Inr [(''bulk_download'', bulk), (''rapid_access'', rapid),
                           (''abnormal_hours'', abnormal), (''suspicious_user_agent'', agents),
                           (''failed_access_attempts'', failed)])"

subsection \<open>Extended pattern detectors\<close>

text \<open>
  The entries \<^verbatim>\<open>pattern_detector.py\<close> reads carry the keys of the BigQuery rows:
  \<^verbatim>\<open>timestamp\<close> (a \<^verbatim>\<open>datetime\<close>, so the \<^verbatim>\<open>isinstance(_, str)\<close> conversions are not
  taken), \<^verbatim>\<open>object\<close>, \<^verbatim>\<open>method\<close>, \<^verbatim>\<open>status\<close>, \<^verbatim>\<open>user_agent\<close> and \<^verbatim>\<open>ip\<close>.
\<close>

record gcp_log =
  g_timestamp :: datetime
  g_object :: string
  g_method :: string
  g_status :: int
  g_user_agent :: string
  g_ip :: string

text \<open>
  \<^verbatim>\<open>pattern_detector.py\<close> imports \<^verbatim>\<open>SecurityEvent\<close> from \<^verbatim>\<open>cloudwatch_analyzer\<close> and
  calls it with keyword arguments. The \<^verbatim>\<open>__init__\<close> that \<^verbatim>\<open>@dataclass\<close> generates takes
  exactly the seven declared fields, none with a default: a keyword that is not a
  field, or a field without an argument, raises \<^verbatim>\<open>TypeError\<close>. The record fixes the type
  of each field, so \<open>SecurityEvent_init\<close> refuses an argument of another type as well;
  no caller passes one.
\<close>

datatype pyval = PStr string | PTime datetime | PDict "(string \<times> detail) list"

definition SecurityEvent_fields :: "string list" where
  "SecurityEvent_fields =
     [''event_type'', ''severity'', ''timestamp'', ''ip_address'', ''resource'', ''details'', ''region'']"

definition arg_str :: "(string \<times> pyval) list \<Rightarrow> string \<Rightarrow> string option" where
  "arg_str kwargs k = (case map_of kwargs k of Some (PStr s) \<Rightarrow> Some s | _ \<Rightarrow> None)"

definition arg_time :: "(string \<times> pyval) list \<Rightarrow> string \<Rightarrow> datetime option" where
  "arg_time kwargs k = (case map_of kwargs k of Some (PTime t) \<Rightarrow> Some t | _ \<Rightarrow> None)"

definition arg_dict :: "(string \<times> pyval) list \<Rightarrow> string \<Rightarrow> (string \<times> detail) list option" where
  "arg_dict kwargs k = (case map_of kwargs k of Some (PDict d) \<Rightarrow> Some d | _ \<Rightarrow> None)"

definition SecurityEvent_init :: "(string \<times> pyval) list \<Rightarrow> py_error + SecurityEvent" where
  "SecurityEvent_init kwargs =
     (if list_ex (\<lambda>k. k \<notin> set SecurityEvent_fields) (map fst kwargs) then Inl TypeError
      else
        case (arg_str kwargs ''event_type'', arg_str kwargs ''severity'',
              arg_time kwargs ''timestamp'', arg_str kwargs ''ip_address'',
              arg_str kwargs ''resource'', arg_dict kwargs ''details'',
              arg_str kwargs ''region'') of
          (Some et, Some sv, Some ts, Some ip, Some rs, Some dt, Some rg) \<Rightarrow>
            Inr \<lparr>event_type = et, severity = sv, timestamp = ts, ip_address = ip,
                 resource = rs, details = dt, region = rg\<rparr>
        | _ \<Rightarrow> Inl TypeError)"

text \<open>Float division raises on a zero divisor; \<^verbatim>\<open>max(x, 1)\<close> is \<open>max x 1\<close>.\<close>

definition py_div :: "rat \<Rightarrow> rat \<Rightarrow> py_error + rat" where
  "py_div a b = (if b = 0 then Inl ZeroDivisionError else Inr (a / b))"

text \<open>
  \<^verbatim>\<open>detect_credential_stuffing\<close>: the entries with status 401 or 403, grouped by address;
  a group of five or more is sorted by time (Python's sort is stable, as \<open>sort_key\<close>
  is) and fires when its last entry is at most 60 seconds after its first.
\<close>

fun credential_loop :: "(string \<times> gcp_log list) list \<Rightarrow> SecurityEvent list \<Rightarrow> py_error + SecurityEvent list" where
  "credential_loop [] events = Inr events"
| "credential_loop ((ip, fs) # d) events =
     (if length fs \<ge> 5
      then
        let failures = sort_key g_timestamp fs;
            first = g_timestamp (hd failures);
            last = g_timestamp (List.last failures)
        in if total_seconds (last - first) \<le> 60
           then
             (case SecurityEvent_init
                     [(''timestamp'', PTime last),
                      (''event_type'', PStr ''credential_stuffing''),
                      (''severity'', PStr ''high''),
                      (''source_ip'', PStr ip),
                      (''user_agent'', PStr (g_user_agent (hd failures))),
                      (''resource'', PStr (g_object (hd failures))),
                      (''details'', PDict
                         [(''failed_attempts'', DInt (int (length failures))),
                          (''time_span'', DNum (total_seconds (last - first))),
                          (''attack_rate'', DNum (of_nat (length failures) /
                                                   max (total_seconds (last - first)) 1))])] of
                Inl e \<Rightarrow> Inl e
              | Inr event \<Rightarrow> credential_loop d (events @ [event]))
           else credential_loop d events
      else credential_loop d events)"

definition detect_credential_stuffing :: "gcp_log list \<Rightarrow> py_error + SecurityEvent list" where
  "detect_credential_stuffing logs =
     credential_loop (collect (\<lambda>l. g_status l \<in> set [401, 403]) g_ip id logs) []"

text \<open>
  \<^verbatim>\<open>detect_data_exfiltration\<close>: every successful GET adds \<^verbatim>\<open>estimated_size\<close> (1 MiB) to
  the address's \<^verbatim>\<open>bytes\<close>, one to its \<^verbatim>\<open>files\<close> and its time to \<^verbatim>\<open>timestamps\<close>; the
  three are kept here as the list of times, from which the other two follow.
\<close>

definition estimated_size :: int where
  "estimated_size = 1024 * 1024"

definition threshold_mb :: rat where
  "threshold_mb = 100"

definition successful_get :: "gcp_log \<Rightarrow> bool" where
  "successful_get l = (g_method l = ''GET'' \<and> g_status l = 200)"

definition transfer_bytes :: "datetime list \<Rightarrow> int" where
  "transfer_bytes timestamps = foldl (\<lambda>b t. b + estimated_size) 0 timestamps"

fun exfiltration_loop :: "(string \<times> datetime list) list \<Rightarrow> SecurityEvent list \<Rightarrow> py_error + SecurityEvent list" where
  "exfiltration_loop [] events = Inr events"
| "exfiltration_loop ((ip, timestamps) # d) events =
     (let size_mb = of_int (transfer_bytes timestamps) / (1024 * 1024) :: rat;
          files = length timestamps
      in if size_mb \<ge> threshold_mb
         then
           let first = Min (set timestamps); last = Max (set timestamps) in
           (case SecurityEvent_init
                   [(''timestamp'', PTime last),
                    (''event_type'', PStr ''data_exfiltration''),
                    (''severity'', PStr ''critical''),
                    (''source_ip'', PStr ip),
                    (''user_agent'', PStr []),
                    (''resource'', PStr (str_nat files @ '' files'')),
                    (''details'', PDict
                       [(''total_size_mb'', DNum size_mb),
                        (''file_count'', DInt (int files)),
                        (''duration_seconds'', DNum (total_seconds (last - first))),
                        (''transfer_rate_mbps'',
                           DNum (size_mb / max (total_seconds (last - first)) 1))])] of
              Inl e \<Rightarrow> Inl e
            | Inr event \<Rightarrow> exfiltration_loop d (events @ [event]))
         else exfiltration_loop d events)"

definition detect_data_exfiltration :: "gcp_log list \<Rightarrow> py_error + SecurityEvent list" where
  "detect_data_exfiltration logs =
     exfiltration_loop (collect successful_get g_ip g_timestamp logs) []"

text \<open>
  \<^verbatim>\<open>detect_port_scanning\<close>: all entries, grouped by address and sorted by time; twenty
  or more distinct resources within 120 seconds from the first entry to the last.
\<close>

fun port_scan_loop :: "(string \<times> gcp_log list) list \<Rightarrow> SecurityEvent list \<Rightarrow> py_error + SecurityEvent list" where
  "port_scan_loop [] events = Inr events"
| "port_scan_loop ((ip, as) # d) events =
     (let accesses = sort_key g_timestamp as;
          unique_resources = remdups (map g_object accesses)
      in if length unique_resources \<ge> 20
         then
           let first = g_timestamp (hd accesses);
               last = g_timestamp (List.last accesses)
           in if total_seconds (last - first) \<le> 120
              then
                (case SecurityEvent_init
                        [(''timestamp'', PTime last),
                         (''event_type'', PStr ''port_scanning''),
                         (''severity'', PStr ''medium''),
                         (''source_ip'', PStr ip),
                         (''user_agent'', PStr []),
                         (''resource'', PStr (str_nat (length unique_resources) @ '' resources'')),
                         (''details'', PDict
                            [(''unique_resources'', DInt (int (length unique_resources))),
                             (''total_requests'', DInt (int (length accesses))),
                             (''time_span'', DNum (total_seconds (last - first))),
                             (''scan_rate'', DNum (of_nat (length accesses) /
                                                   max (total_seconds (last - first)) 1))])] of
                   Inl e \<Rightarrow> Inl e
                 | Inr event \<Rightarrow> port_scan_loop d (events @ [event]))
              else port_scan_loop d events
         else port_scan_loop d events)"

definition detect_port_scanning :: "gcp_log list \<Rightarrow> py_error + SecurityEvent list" where
  "detect_port_scanning logs = port_scan_loop (collect (\<lambda>l. True) g_ip id logs) []"

text \<open>
  \<^verbatim>\<open>detect_time_based_pattern\<close>: for an address with five or more entries, the gaps
  between consecutive sorted times, their mean and their mean absolute deviation
  (named \<^verbatim>\<open>variance\<close>); the quotient of the two is compared with 0.1, and nothing checks
  the mean before it divides.
\<close>

fun intervals_of :: "datetime list \<Rightarrow> rat list" where
  "intervals_of (a # b # ts) = total_seconds (b - a) # intervals_of (b # ts)"
| "intervals_of ts = []"

fun time_pattern_loop :: "(string \<times> datetime list) list \<Rightarrow> SecurityEvent list \<Rightarrow> py_error + SecurityEvent list" where
  "time_pattern_loop [] events = Inr events"
| "time_pattern_loop ((ip, tms) # d) events =
     (if length tms < 5 then time_pattern_loop d events
      else
        let timestamps = sort tms;
            intervals = intervals_of timestamps
        in if intervals \<noteq> []
           then
             let avg_interval = sum_list intervals / of_nat (length intervals);
                 variance = sum_list (map (\<lambda>i. \<bar>i - avg_interval\<bar>) intervals) /
                              of_nat (length intervals)
             in (case py_div variance avg_interval of
                   Inl e \<Rightarrow> Inl e
                 | Inr q \<Rightarrow>
                     if q < 1 / 10
                     then
                       (case SecurityEvent_init
                               [(''timestamp'', PTime (List.last timestamps)),
                                (''event_type'', PStr ''time_based_pattern''),
                                (''severity'', PStr ''medium''),
                                (''source_ip'', PStr ip),
                                (''user_agent'', PStr []),
                                (''resource'', PStr []),
                                (''details'', PDict
                                   [(''average_interval_seconds'', DNum avg_interval),
                                    (''interval_variance'', DNum variance),
                                    (''request_count'', DInt (int (length timestamps))),
                                    (''pattern_type'', DStr ''automated_scheduled'')])] of
                          Inl e \<Rightarrow> Inl e
                        | Inr event \<Rightarrow> time_pattern_loop d (events @ [event]))
                     else time_pattern_loop d events)
           else time_pattern_loop d events)"

definition detect_time_based_pattern :: "gcp_log list \<Rightarrow> py_error + SecurityEvent list" where
  "detect_time_based_pattern logs =
     time_pattern_loop (collect (\<lambda>l. True) g_ip g_timestamp logs) []"

definition detect_impossible_travel :: "gcp_log list \<Rightarrow> py_error + SecurityEvent list" where
  "detect_impossible_travel logs = Inr []"

subsection \<open>Alert channels and dispatch\<close>

text \<open>
  \<^verbatim>\<open>email_alert.py\<close> and \<^verbatim>\<open>slack_alert.py\<close> take their \<^verbatim>\<open>SecurityEvent\<close> from
  \<^verbatim>\<open>src.analysis\<close>, which exports the dataclass of \<^verbatim>\<open>cloudwatch_analyzer\<close>. Reading an
  attribute the dataclass does not declare raises \<^verbatim>\<open>AttributeError\<close>.
\<close>

definition getattr :: "SecurityEvent \<Rightarrow> string \<Rightarrow> py_error + pyval" where
  "getattr e name =
     (if name = ''event_type'' then Inr (PStr (event_type e))
      else if name = ''severity'' then Inr (PStr (severity e))
      else if name = ''timestamp'' then Inr (PTime (timestamp e))
      else if name = ''ip_address'' then Inr (PStr (ip_address e))
      else if name = ''resource'' then Inr (PStr (resource e))
      else if name = ''details'' then Inr (PDict (details e))
      else if name = ''region'' then Inr (PStr (region e))
      else Inl AttributeError)"

text \<open>The attributes an expression reads, in the order it reads them.\<close>

fun getattrs :: "SecurityEvent \<Rightarrow> string list \<Rightarrow> py_error + pyval list" where
  "getattrs e [] = Inr []"
| "getattrs e (n # ns) =
     (case getattr e n of
        Inl err \<Rightarrow> Inl err
      | Inr v \<Rightarrow> (case getattrs e ns of Inl err \<Rightarrow> Inl err | Inr vs \<Rightarrow> Inr (v # vs)))"

fun getattrs_each :: "SecurityEvent list \<Rightarrow> string list \<Rightarrow> py_error + pyval list list" where
  "getattrs_each [] ns = Inr []"
| "getattrs_each (e # es) ns =
     (case getattrs e ns of
        Inl err \<Rightarrow> Inl err
      | Inr vs \<Rightarrow> (case getattrs_each es ns of Inl err \<Rightarrow> Inl err | Inr vss \<Rightarrow> Inr (vs # vss)))"

text \<open>
  A message is kept as the values it was built from, not as its rendered text. The
  counting loops of the two \<^verbatim>\<open>send_batch_alert\<close> read \<^verbatim>\<open>event.severity\<close> two or three
  times per event, listed here once. A
  channel is enabled when its credentials are configured; \<open>outbox\<close> lists the calls of
  \<^verbatim>\<open>sg.send\<close> or \<^verbatim>\<open>requests.post\<close> made so far; \<open>respond\<close> is the service's answer to a
  call: a status code, or \<open>None\<close> when the call raises.
\<close>

datatype message = Alert "pyval list" | Summary nat "pyval list list"

record channel =
  enabled :: bool
  outbox :: "message list"
  respond :: "message \<Rightarrow> int option"

definition transmit :: "int \<Rightarrow> channel \<Rightarrow> message \<Rightarrow> bool \<times> channel" where
  "transmit ok ch msg =
     (let ch' = ch\<lparr>outbox := outbox ch @ [msg]\<rparr>
      in case respond ch msg of None \<Rightarrow> (False, ch') | Some status_code \<Rightarrow> (status_code = ok, ch'))"

definition format_event_html :: "SecurityEvent \<Rightarrow> py_error + pyval list" where
  "format_event_html e =
     getattrs e [''severity'', ''event_type'', ''severity'', ''timestamp'', ''source_ip'',
                 ''user_agent'', ''resource'', ''region'', ''details'']"

definition email_send_alert :: "channel \<Rightarrow> SecurityEvent \<Rightarrow> bool \<times> channel" where
  "email_send_alert ch e =
     (if \<not> enabled ch then (False, ch)
      else
        case getattrs e [''severity'', ''event_type''] of
          Inl err \<Rightarrow> (False, ch)
        | Inr subject \<Rightarrow>
            (case format_event_html e of
               Inl err \<Rightarrow> (False, ch)
             | Inr html \<Rightarrow> transmit 202 ch (Alert (subject @ html))))"

definition email_send_batch_alert :: "channel \<Rightarrow> SecurityEvent list \<Rightarrow> py_error + bool \<times> channel" where
  "email_send_batch_alert ch events =
     (if \<not> enabled ch \<or> events = [] then Inr (False, ch)
      else
        case getattrs_each events [''severity''] of
          Inl err \<Rightarrow> Inl err
        | Inr by_severity \<Rightarrow>
            (case getattrs_each (take 10 events) [''event_type'', ''source_ip'', ''timestamp''] of
               Inl err \<Rightarrow> Inl err
             | Inr summary \<Rightarrow> Inr (transmit 202 ch (Summary (length events) summary))))"

definition format_event_slack :: "SecurityEvent \<Rightarrow> py_error + pyval list" where
  "format_event_slack e =
     getattrs e [''severity'', ''severity'', ''severity'', ''event_type'', ''source_ip'',
                 ''region'', ''timestamp'', ''resource'', ''user_agent'', ''details'',
                 ''event_type'']"

definition slack_send_alert :: "channel \<Rightarrow> SecurityEvent \<Rightarrow> bool \<times> channel" where
  "slack_send_alert ch e =
     (if \<not> enabled ch then (False, ch)
      else
        case format_event_slack e of
          Inl err \<Rightarrow> (False, ch)
        | Inr payload \<Rightarrow> transmit 200 ch (Alert payload))"

definition slack_send_batch_alert :: "channel \<Rightarrow> SecurityEvent list \<Rightarrow> py_error + bool \<times> channel" where
  "slack_send_batch_alert ch events =
     (if \<not> enabled ch \<or> events = [] then Inr (False, ch)
      else
        case getattrs_each events [''severity''] of
          Inl err \<Rightarrow> Inl err
        | Inr severity_counts \<Rightarrow>
            (case getattrs_each (take 10 events)
                    [''severity'', ''event_type'', ''source_ip'', ''timestamp''] of
               Inl err \<Rightarrow> Inl err
             | Inr attachments \<Rightarrow> Inr (transmit 200 ch (Summary (length events) attachments))))"

text \<open>
  The alerting half of \<^verbatim>\<open>analyze_logs\<close> in \<^verbatim>\<open>main.py\<close>, from the flattened list of the
  analyzer's events. The result is the exception that ended the call, if one did, with
  both channels as they were left.
\<close>

fun immediate_loop :: "channel \<Rightarrow> channel \<Rightarrow> SecurityEvent list \<Rightarrow> channel \<times> channel" where
  "immediate_loop email_system slack_system [] = (email_system, slack_system)"
| "immediate_loop email_system slack_system (event # es) =
     immediate_loop (snd (email_send_alert email_system event))
                    (snd (slack_send_alert slack_system event)) es"

definition main_analyze_logs :: "bool \<Rightarrow> channel \<Rightarrow> channel \<Rightarrow> SecurityEvent list \<Rightarrow> py_error option \<times> channel \<times> channel" where
  "main_analyze_logs send_alerts email_system slack_system all_events =
     (if all_events = [] then (None, email_system, slack_system)
      else if \<not> send_alerts then (None, email_system, slack_system)
      else
        let immediate_alerts = filter (\<lambda>e. severity e \<in> set [''critical'', ''high'']) all_events;
            (email1, slack1) = immediate_loop email_system slack_system immediate_alerts
        in if length all_events > 1
           then
             (case email_send_batch_alert email1 all_events of
                Inl err \<Rightarrow> (Some err, email1, slack1)
              | Inr (sent, email2) \<Rightarrow>
                  (case slack_send_batch_alert slack1 all_events of
                     Inl err \<Rightarrow> (Some err, email2, slack1)
                   | Inr (sent', slack2) \<Rightarrow> (None, email2, slack2)))
           else (None, email1, slack1))"

subsection \<open>Notions of the specification and sample inputs\<close>

text \<open>
  \<open>get_object_entries\<close> are the entries the CloudWatch bulk detector counts for an
  address; \<open>spec_successful_gets\<close> are the ones the specification counts, the GETs that
  were answered with status 200.
\<close>

definition get_object_entries :: "string \<Rightarrow> s3_log list \<Rightarrow> s3_log list" where
  "get_object_entries ip logs = filter (\<lambda>l. operation l = ''REST.GET.OBJECT'' \<and> remote_ip l = ip) logs"

definition spec_successful_gets :: "string \<Rightarrow> s3_log list \<Rightarrow> s3_log list" where
  "spec_successful_gets ip logs =
     filter (\<lambda>l. remote_ip l = ip \<and> operation l = ''REST.GET.OBJECT'' \<and> http_status l = ''200'') logs"

definition example_get :: "string \<Rightarrow> s3_log" where
  "example_get status =
     \<lparr>log_timestamp = Some 0, bucket_name = ''honey-tokens'', object_name = ''passwords.txt'',
      remote_ip = ''10.0.0.1'', user_agent = Some ''Mozilla/5.0'', operation = ''REST.GET.OBJECT'',
      http_status = status\<rparr>"

definition frozen_clock :: "datetime \<Rightarrow> clock" where
  "frozen_clock t = (\<lambda>k. t)"

text \<open>A successful GET of the extended detectors' input, at a given instant.\<close>

definition example_entry :: "datetime \<Rightarrow> gcp_log" where
  "example_entry t =
     \<lparr>g_timestamp = t, g_object = ''passwords.txt'', g_method = ''GET'', g_status = 200,
      g_user_agent = ''curl/7.68.0'', g_ip = ''10.0.0.1''\<rparr>"

text \<open>
  The first qualifying window, said without the loop: \<open>times_of\<close> are the parsed times
  of an address; window \<open>i\<close> of \<open>n\<close> consecutive sorted times qualifies when it spans at
  most \<open>win\<close> seconds; \<open>spec_first_window\<close> is the qualifying window of least index, if
  there is one. \<open>reported_window\<close> reads the window back from an event's details.
\<close>

definition times_of :: "string \<Rightarrow> s3_log list \<Rightarrow> datetime list" where
  "times_of ip logs =
     map (\<lambda>l. the (log_timestamp l)) (filter (\<lambda>l. log_timestamp l \<noteq> None \<and> remote_ip l = ip) logs)"

definition window_qualifies :: "int \<Rightarrow> datetime list \<Rightarrow> nat \<Rightarrow> nat \<Rightarrow> bool" where
  "window_qualifies win tms n i = (total_seconds (tms ! (i + n - 1) - tms ! i) \<le> of_int win)"

definition spec_first_window :: "nat \<Rightarrow> int \<Rightarrow> datetime list \<Rightarrow> (datetime \<times> datetime) option" where
  "spec_first_window n win tms =
     (case find (window_qualifies win tms n) [0..<length tms + 1 - n] of
        None \<Rightarrow> None
      | Some i \<Rightarrow> Some (tms ! i, tms ! (i + n - 1)))"

definition reported_window :: "SecurityEvent \<Rightarrow> (datetime \<times> datetime) option" where
  "reported_window e =
     (case (map_of (details e) ''first_access'', map_of (details e) ''last_access'') of
        (Some (DTime a), Some (DTime b)) \<Rightarrow> Some (a, b)
      | _ \<Rightarrow> None)"

text \<open>
  Six accesses of one address, out of order: one at second 0 and five from second 100
  to second 104. The five sorted times from index 0 span 103 seconds, those from
  index 1 span 4 seconds.
\<close>

definition example_access :: "datetime \<Rightarrow> s3_log" where
  "example_access t =
     \<lparr>log_timestamp = Some t, bucket_name = ''honey-tokens'', object_name = ''passwords.txt'',
      remote_ip = ''10.0.0.1'', user_agent = Some ''Mozilla/5.0'', operation = ''REST.GET.OBJECT'',
      http_status = ''200''\<rparr>"

definition rapid_batch :: "s3_log list" where
  "rapid_batch =
     [example_access 104000000, example_access 0, example_access 100000000,
      example_access 101000000, example_access 102000000, example_access 103000000]"

text \<open>
  A bulk-download event as the analyzer builds it, a channel whose credentials are
  configured and whose service answers every call with the given status, and an empty
  table that can be reached.
\<close>

definition example_event :: "string \<Rightarrow> SecurityEvent" where
  "example_event sev =
     \<lparr>event_type = ''bulk_download'', severity = sev, timestamp = 1700000000000000,
      ip_address = ''10.0.0.1'', resource = ''honey-tokens'', details = [],
      region = ''us-east-1''\<rparr>"

definition configured :: "int \<Rightarrow> channel" where
  "configured ok = \<lparr>enabled = True, outbox = [], respond = (\<lambda>m. Some ok)\<rparr>"

definition empty_table :: dynamo_table where
  "empty_table = \<lparr>rows = Map.empty, reachable = True\<rparr>"

text \<open>
  \<open>untimed\<close> blanks the timestamp of an event. \<open>untimed_except keep\<close> blanks the
  timestamps in a whole result of \<^verbatim>\<open>analyze_logs\<close>, but leaves the events under the keys
  listed in \<open>keep\<close> as they are. \<open>stamped now evs\<close> says that the timestamp of the
  \<open>k\<close>-th event of \<open>evs\<close> is the \<open>k\<close>-th reading of the clock \<open>now\<close>;
  \<open>stamped_result\<close> says so of the events of a call that returned. \<open>abnormal_times\<close> are
  the parsed times of a batch whose hour is before six.
\<close>

definition untimed :: "SecurityEvent \<Rightarrow> SecurityEvent" where
  "untimed e = e\<lparr>timestamp := 0\<rparr>"

definition untimed_except :: "string list \<Rightarrow> py_error + (string \<times> SecurityEvent list) list \<Rightarrow> py_error + (string \<times> SecurityEvent list) list" where
  "untimed_except keep r =
     map_sum id (map (\<lambda>(name, evs). (name, if name \<in> set keep then evs else map untimed evs))) r"

definition stamped :: "clock \<Rightarrow> SecurityEvent list \<Rightarrow> bool" where
  "stamped now evs = (map timestamp evs = map now [0..<length evs])"

definition stamped_result :: "clock \<Rightarrow> py_error + SecurityEvent list \<Rightarrow> bool" where
  "stamped_result now r = (case r of Inl e \<Rightarrow> True | Inr evs \<Rightarrow> stamped now evs)"

definition abnormal_times :: "s3_log list \<Rightarrow> datetime list" where
  "abnormal_times logs =
     filter (\<lambda>t. 0 \<le> hour t \<and> hour t < 6)
       (map (\<lambda>l. the (log_timestamp l)) (filter (\<lambda>l. log_timestamp l \<noteq> None) logs))"

text \<open>
  \<open>spec_run_all\<close> is \<^verbatim>\<open>runAll\<close> of the specification, one run of every detector of the
  repository: the pass of the analyzer and the pass of the Lambda over a batch with a
  clock, and the five extended detectors over a batch of their own format, which take
  no clock. \<open>untimed_run\<close> blanks the timestamps of the events that are stamped with
  the clock and leaves every other event as it is.
\<close>

definition spec_run_all :: "int \<Rightarrow> int \<Rightarrow> int \<Rightarrow> (string list \<Rightarrow> string list) \<Rightarrow> string \<Rightarrow> clock \<Rightarrow> s3_log list \<Rightarrow> gcp_log list \<Rightarrow> (py_error + (string \<times> SecurityEvent list) list) \<times> (py_error + (string \<times> SecurityEvent list) list) \<times> (py_error + SecurityEvent list) list" where
  "spec_run_all bt rt rw set_list reg now logs glogs =
     (analyze_logs bt rt rw reg now logs,
      lambda_analyze_logs set_list reg now logs,
      [detect_credential_stuffing glogs, detect_data_exfiltration glogs,
       detect_port_scanning glogs, detect_time_based_pattern glogs,
       detect_impossible_travel glogs])"

definition untimed_run :: "(py_error + (string \<times> SecurityEvent list) list) \<times> (py_error + (string \<times> SecurityEvent list) list) \<times> (py_error + SecurityEvent list) list \<Rightarrow> (py_error + (string \<times> SecurityEvent list) list) \<times> (py_error + (string \<times> SecurityEvent list) list) \<times> (py_error + SecurityEvent list) list" where
  "untimed_run r =
     (case r of (analyzer, lambda_pass, patterns) \<Rightarrow>
        (untimed_except [''abnormal_hours''] analyzer, untimed_except [] lambda_pass, patterns))"

text \<open>
  \<open>curl_entry\<close> is one noon access with a curl user agent; \<open>no_agent_entry\<close> is an access
  of another address whose log record has no user agent. \<open>ticking_clock\<close> goes on by
  one microsecond from one reading to the next.
\<close>

definition curl_entry :: s3_log where
  "curl_entry =
     \<lparr>log_timestamp = Some 43200000000, bucket_name = ''honey-tokens'',
      object_name = ''passwords.txt'', remote_ip = ''10.0.0.1'', user_agent = Some ''curl/7.68.0'',
      operation = ''REST.GET.OBJECT'', http_status = ''200''\<rparr>"

definition no_agent_entry :: s3_log where
  "no_agent_entry =
     \<lparr>log_timestamp = Some 43200000000, bucket_name = ''honey-tokens'',
      object_name = ''passwords.txt'', remote_ip = ''10.0.0.2'', user_agent = None,
      operation = ''REST.GET.OBJECT'', http_status = ''200''\<rparr>"

definition ticking_clock :: clock where
  "ticking_clock k = 1700000000000000 + int k"

text \<open>
  The one window the port-scan and credential-stuffing detectors test for an address,
  said without the loop: \<open>failed_logins\<close> are the address's entries with status 401 or
  403, \<open>entries_of\<close> all its entries, \<open>span_seconds\<close> the time from the earliest to the
  latest of a list of entries. \<open>failed_login t\<close> is a refused request at instant \<open>t\<close>;
  \<open>burst\<close> are five of them within four seconds, \<open>sub_burst\<close> the same five and a sixth
  one hour later. \<open>probe k\<close> is a request for the object numbered \<open>k\<close> at second \<open>k\<close>, and
  \<open>scan_burst\<close> are twenty of them, for twenty objects within nineteen seconds.
\<close>

definition failed_logins :: "string \<Rightarrow> gcp_log list \<Rightarrow> gcp_log list" where
  "failed_logins ip glogs = filter (\<lambda>l. g_status l \<in> set [401, 403] \<and> g_ip l = ip) glogs"

definition entries_of :: "string \<Rightarrow> gcp_log list \<Rightarrow> gcp_log list" where
  "entries_of ip glogs = filter (\<lambda>l. g_ip l = ip) glogs"

definition span_seconds :: "gcp_log list \<Rightarrow> rat" where
  "span_seconds ls =
     total_seconds (Max (set (map g_timestamp ls)) - Min (set (map g_timestamp ls)))"

definition whole_group_stuffing :: "string \<Rightarrow> gcp_log list \<Rightarrow> bool" where
  "whole_group_stuffing ip glogs =
     (5 \<le> length (failed_logins ip glogs) \<and> span_seconds (failed_logins ip glogs) \<le> 60)"

definition whole_group_scan :: "string \<Rightarrow> gcp_log list \<Rightarrow> bool" where
  "whole_group_scan ip glogs =
     (20 \<le> card (set (map g_object (entries_of ip glogs))) \<and> span_seconds (entries_of ip glogs) \<le> 120)"

definition failed_login :: "datetime \<Rightarrow> gcp_log" where
  "failed_login t =
     \<lparr>g_timestamp = t, g_object = ''admin/login'', g_method = ''POST'', g_status = 401,
      g_user_agent = ''curl/7.68.0'', g_ip = ''10.0.0.1''\<rparr>"

definition burst :: "gcp_log list" where
  "burst = [failed_login 0, failed_login 1000000, failed_login 2000000, failed_login 3000000,
            failed_login 4000000]"

definition sub_burst :: "gcp_log list" where
  "sub_burst = burst @ [failed_login 3600000000]"

definition probe :: "nat \<Rightarrow> gcp_log" where
  "probe k =
     \<lparr>g_timestamp = int k * 1000000, g_object = ''object-'' @ str_nat k, g_method = ''GET'',
      g_status = 404,
      g_user_agent = ''curl/7.68.0'', g_ip = ''10.0.0.1''\<rparr>"

definition scan_burst :: "gcp_log list" where
  "scan_burst = map probe [0..<20]"

section \<open>Properties\<close>

subsection \<open>The grouping dictionary\<close>

lemma map_of_group_append:
  "map_of (group_append d k v) k' =
     (if k' = k then Some ((case map_of d k of None \<Rightarrow> [] | Some vs \<Rightarrow> vs) @ [v]) else map_of d k')"
  by (induction d k v rule: group_append.induct) auto

lemma keys_group_append:
  "map fst (group_append d k v) = (if k \<in> set (map fst d) then map fst d else map fst d @ [k])"
  by (induction d k v rule: group_append.induct) auto

lemma distinct_group_append:
  "distinct (map fst d) \<Longrightarrow> distinct (map fst (group_append d k v))"
  by (simp add: keys_group_append)

lemma distinct_foldl_grouping:
  "distinct (map fst d) \<Longrightarrow>
   distinct (map fst (foldl (\<lambda>d l. if P l then group_append d (key l) (val l) else d) d logs))"
  by (induction logs arbitrary: d) (auto simp: distinct_group_append)

lemma map_of_foldl_grouping:
  "map_of (foldl (\<lambda>d l. if P l then group_append d (key l) (val l) else d) d logs) k =
     (let new = map val (filter (\<lambda>l. P l \<and> key l = k) logs)
      in if new = [] then map_of d k
         else Some ((case map_of d k of None \<Rightarrow> [] | Some vs \<Rightarrow> vs) @ new))"
proof (induction logs arbitrary: d)
  case Nil
  show ?case by simp
next
  case (Cons l logs)
  show ?case
    by (simp add: Cons.IH map_of_group_append Let_def)
qed

lemma distinct_collect: "distinct (map fst (collect P key val logs))"
  unfolding collect_def by (rule distinct_foldl_grouping) simp

lemma map_of_collect:
  "map_of (collect P key val logs) k =
     (if filter (\<lambda>l. P l \<and> key l = k) logs = [] then None
      else Some (map val (filter (\<lambda>l. P l \<and> key l = k) logs)))"
  unfolding collect_def by (simp add: map_of_foldl_grouping Let_def)

lemma collect_nonempty: "(k, vs) \<in> set (collect P key val logs) \<Longrightarrow> vs \<noteq> []"
proof -
  assume a: "(k, vs) \<in> set (collect P key val logs)"
  have "map_of (collect P key val logs) k = Some vs"
    using a distinct_collect by (metis map_of_is_SomeI)
  then show ?thesis
    by (auto simp: map_of_collect split: if_splits)
qed

lemma filter_key_distinct:
  "distinct (map fst d) \<Longrightarrow>
   filter (\<lambda>(k, vs). k = ip \<and> Q vs) d =
     (case map_of d ip of None \<Rightarrow> [] | Some vs \<Rightarrow> if Q vs then [(ip, vs)] else [])"
proof (induction d)
  case Nil
  show ?case by simp
next
  case (Cons p d)
  obtain k vs where p: "p = (k, vs)" by (cases p)
  show ?case
  proof (cases "k = ip")
    case True
    have "filter (\<lambda>(k, vs). k = ip \<and> Q vs) d = []"
      using Cons.prems p True by (auto simp: filter_empty_conv image_iff)
    then show ?thesis using p True by simp
  next
    case False
    then show ?thesis using Cons p by simp
  qed
qed

subsection \<open>Bulk downloads\<close>

lemma bulk_loop_events_for:
  "length (events_for ip (bulk_loop thr reg now d events)) =
     length (events_for ip events) + length (filter (\<lambda>(k, vs). k = ip \<and> thr \<le> int (length vs)) d)"
  by (induction thr reg now d events rule: bulk_loop.induct) (auto simp: events_for_def)

lemma bulk_loop_severity:
  "list_all (\<lambda>e. severity e = ''high'') events \<Longrightarrow>
   list_all (\<lambda>e. severity e = ''high'') (bulk_loop thr reg now d events)"
  by (induction thr reg now d events rule: bulk_loop.induct) auto

lemma bulk_count:
  "length (events_for ip (detect_bulk_downloads thr reg now logs)) =
     (if get_object_entries ip logs \<noteq> [] \<and> thr \<le> int (length (get_object_entries ip logs)) then 1 else 0)"
proof -
  have "events_for ip [] = []" by (simp add: events_for_def)
  then show ?thesis
    by (simp add: detect_bulk_downloads_def bulk_loop_events_for filter_key_distinct distinct_collect
        map_of_collect get_object_entries_def)
qed

lemma bulk_severity: "list_all (\<lambda>e. severity e = ''high'') (detect_bulk_downloads thr reg now logs)"
  by (simp add: detect_bulk_downloads_def bulk_loop_severity)

text \<open>
  C2 (as the code has it). With a threshold of at least one, an address with exactly
  \<open>thr - 1\<close> entries of operation \<^verbatim>\<open>REST.GET.OBJECT\<close>, whatever their HTTP status,
  gets no bulk-download event, and an address with exactly \<open>thr\<close> such entries gets
  exactly one, of severity high.
\<close>

theorem bulk_download_threshold_boundary:
  assumes "1 \<le> thr"
  shows "(int (length (get_object_entries ip logs)) = thr - 1 \<longrightarrow>
            events_for ip (detect_bulk_downloads thr reg now logs) = []) \<and>
         (int (length (get_object_entries ip logs)) = thr \<longrightarrow>
            (\<exists>e. events_for ip (detect_bulk_downloads thr reg now logs) = [e] \<and> severity e = ''high''))"
proof (intro conjI impI)
  assume "int (length (get_object_entries ip logs)) = thr - 1"
  then have "length (events_for ip (detect_bulk_downloads thr reg now logs)) = 0"
    by (simp add: bulk_count)
  then show "events_for ip (detect_bulk_downloads thr reg now logs) = []" by simp
next
  assume n: "int (length (get_object_entries ip logs)) = thr"
  with assms have "get_object_entries ip logs \<noteq> []" by auto
  with n have "length (events_for ip (detect_bulk_downloads thr reg now logs)) = 1"
    by (simp add: bulk_count)
  then obtain e where e: "events_for ip (detect_bulk_downloads thr reg now logs) = [e]"
    by (auto simp: length_Suc_conv)
  have "list_all (\<lambda>e. severity e = ''high'') (events_for ip (detect_bulk_downloads thr reg now logs))"
    using bulk_severity [of thr reg now logs] by (simp add: events_for_def list_all_iff)
  with e show "\<exists>e. events_for ip (detect_bulk_downloads thr reg now logs) = [e] \<and> severity e = ''high''"
    by simp
qed

text \<open>The boundary at the default threshold 10: nine GETs give nothing, ten give one event.\<close>

theorem bulk_download_threshold_boundary_witness:
  "events_for ''10.0.0.1'' (detect_bulk_downloads 10 ''us-east-1'' (frozen_clock 0)
       (replicate 9 (example_get ''200''))) = [] \<and>
   (\<exists>e. events_for ''10.0.0.1'' (detect_bulk_downloads 10 ''us-east-1'' (frozen_clock 0)
       (replicate 10 (example_get ''200''))) = [e] \<and> severity e = ''high'')"
  using bulk_download_threshold_boundary [of 10 "''10.0.0.1''" "replicate 9 (example_get ''200'')" "''us-east-1''" "frozen_clock 0"]
    bulk_download_threshold_boundary [of 10 "''10.0.0.1''" "replicate 10 (example_get ''200'')" "''us-east-1''" "frozen_clock 0"]
  by (simp add: get_object_entries_def example_get_def)

text \<open>
  C2 as stated fails: the detector does not look at the status. Nine successful GETs
  and one GET refused with 403 are \<open>bulkThreshold - 1\<close> successful GETs, and the address
  gets an event.
\<close>

theorem bulk_download_counts_failed_gets:
  "length (spec_successful_gets ''10.0.0.1'' (replicate 9 (example_get ''200'') @ [example_get ''403''])) = 10 - 1 \<and>
   events_for ''10.0.0.1'' (detect_bulk_downloads 10 ''us-east-1'' (frozen_clock 0)
       (replicate 9 (example_get ''200'') @ [example_get ''403''])) \<noteq> []"
proof -
  have "length (events_for ''10.0.0.1'' (detect_bulk_downloads 10 ''us-east-1'' (frozen_clock 0)
       (replicate 9 (example_get ''200'') @ [example_get ''403'']))) = 1"
    by (simp add: bulk_count get_object_entries_def example_get_def)
  then show ?thesis
    by (auto simp: spec_successful_gets_def example_get_def)
qed

text \<open>
  The Lambda copy of the detector is another rule: five distinct object names of one
  address, whatever the operation or the status, give an event of severity critical.
\<close>

lemma lambda_bulk_fires_at_five_objects:
  "map severity (lambda_detect_bulk_downloads set_list ''us-east-1'' (frozen_clock 0)
     [(example_get ''403'')\<lparr>object_name := ''a''\<rparr>, (example_get ''403'')\<lparr>object_name := ''b''\<rparr>,
      (example_get ''403'')\<lparr>object_name := ''c''\<rparr>, (example_get ''403'')\<lparr>object_name := ''d''\<rparr>,
      (example_get ''403'')\<lparr>object_name := ''e''\<rparr>]) = [''critical'']"
  by (simp add: lambda_detect_bulk_downloads_def example_get_def)

subsection \<open>The user-agent detector of the CloudWatch analyzer\<close>

lemma events_for_append: "events_for ip (xs @ ys) = events_for ip xs @ events_for ip ys"
  by (simp add: events_for_def)

lemma events_for_Nil: "events_for ip [] = []"
  by (simp add: events_for_def)

text \<open>
  As long as every entry has a user agent the detector returns, with one event per
  matching entry; one entry without user agent makes it raise.
\<close>

lemma geolocation_loop_count:
  "list_all (\<lambda>l. user_agent l \<noteq> None) logs \<Longrightarrow>
   \<exists>evs. geolocation_loop reg now logs events = Inr evs \<and>
     length (events_for ip evs) =
       length (events_for ip events) +
       length (filter (\<lambda>l. remote_ip l = ip \<and> suspicious_agent (the (user_agent l))) logs)"
proof (induction logs arbitrary: events)
  case Nil
  show ?case by simp
next
  case (Cons l logs)
  from Cons.prems obtain ua where ua: "user_agent l = Some ua" by auto
  from Cons.prems have rest: "list_all (\<lambda>l. user_agent l \<noteq> None) logs" by simp
  show ?case
  proof (cases "suspicious_agent ua")
    case True
    let ?ev = "\<lparr>event_type = ''suspicious_user_agent'', severity = ''medium'',
                 timestamp = now (length events), ip_address = remote_ip l,
                 resource = object_name l,
                 details = [(''user_agent'', DStr ua), (''reason'', DStr ''Automated tool detected'')],
                 region = reg\<rparr>"
    from Cons.IH [OF rest, of "events @ [?ev]"] obtain evs where
      "geolocation_loop reg now logs (events @ [?ev]) = Inr evs"
      "length (events_for ip evs) =
         length (events_for ip (events @ [?ev])) +
         length (filter (\<lambda>l. remote_ip l = ip \<and> suspicious_agent (the (user_agent l))) logs)"
      by blast
    then show ?thesis
      using ua True by (simp add: events_for_append) (simp add: events_for_def)
  next
    case False
    from Cons.IH [OF rest, of events] obtain evs where
      "geolocation_loop reg now logs events = Inr evs"
      "length (events_for ip evs) =
         length (events_for ip events) +
         length (filter (\<lambda>l. remote_ip l = ip \<and> suspicious_agent (the (user_agent l))) logs)"
      by blast
    then show ?thesis
      using ua False by simp
  qed
qed

lemma geolocation_loop_none:
  "list_ex (\<lambda>l. user_agent l = None) logs \<Longrightarrow>
   geolocation_loop reg now logs events = Inl AttributeError"
  by (induction logs arbitrary: events) (auto split: option.splits)

lemma geolocation_events_per_entry:
  assumes "list_all (\<lambda>l. user_agent l \<noteq> None) logs"
  shows "\<exists>evs. detect_geolocation_anomaly reg now logs = Inr evs \<and>
           length (events_for ip evs) =
             length (filter (\<lambda>l. remote_ip l = ip \<and>
                       list_ex (\<lambda>p. str_in p (lower (the (user_agent l))))
                         [''curl'', ''wget'', ''python'', ''bot'', ''crawler'', ''scanner'']) logs)"
  using geolocation_loop_count [OF assms, of reg now "[]" ip]
  by (simp add: detect_geolocation_anomaly_def events_for_Nil suspicious_agent_def
      suspicious_patterns_def)

lemma geolocation_none_raises:
  "list_ex (\<lambda>l. user_agent l = None) logs \<Longrightarrow>
   detect_geolocation_anomaly reg now logs = Inl AttributeError"
  by (simp add: detect_geolocation_anomaly_def geolocation_loop_none)

text \<open>
  C10 fails on the code. A query result without the \<^verbatim>\<open>useragent\<close> field is parsed to
  an entry whose user agent is \<^verbatim>\<open>None\<close>. On the batch of \<open>curl_entry\<close> and
  \<open>no_agent_entry\<close> the address 10.0.0.1 has one entry whose user agent contains a
  keyword, but the detector raises \<^verbatim>\<open>AttributeError\<close> at the other entry and returns no
  event at all; the whole pass \<^verbatim>\<open>analyze_logs\<close> ends with that exception. Without the
  entry that lacks the user agent the detector does what the claim says: the two curl
  entries of the one address give two events, and the user agent \<^verbatim>\<open>script\<close> gives none.
\<close>

theorem user_agent_none_raises:
  "length (filter (\<lambda>l. remote_ip l = ''10.0.0.1'' \<and>
             (case user_agent l of
                None \<Rightarrow> False
              | Some ua \<Rightarrow> list_ex (\<lambda>p. str_in p (lower ua))
                            [''curl'', ''wget'', ''python'', ''bot'', ''crawler'', ''scanner'']))
           [curl_entry, no_agent_entry]) = 1 \<and>
   detect_geolocation_anomaly ''us-east-1'' (frozen_clock 0) [curl_entry, no_agent_entry] =
     Inl AttributeError \<and>
   analyze_logs 10 5 60 ''us-east-1'' (frozen_clock 0) [curl_entry, no_agent_entry] =
     Inl AttributeError \<and>
   map_sum id (map (\<lambda>e. (event_type e, ip_address e)))
       (detect_geolocation_anomaly ''us-east-1'' (frozen_clock 0) [curl_entry, curl_entry]) =
     Inr [(''suspicious_user_agent'', ''10.0.0.1''), (''suspicious_user_agent'', ''10.0.0.1'')] \<and>
   detect_geolocation_anomaly ''us-east-1'' (frozen_clock 0)
       [curl_entry\<lparr>user_agent := Some ''script''\<rparr>] = Inr []"
  by (simp add: detect_geolocation_anomaly_def analyze_logs_def detect_bulk_downloads_def
      detect_rapid_access_def access_times_def first_window_def py_range_def collect_def
      curl_entry_def no_agent_entry_def suspicious_agent_def suspicious_patterns_def
      lower_def lower_char_def)

subsection \<open>Impossible travel\<close>

text \<open>
  C9. \<^verbatim>\<open>detect_impossible_travel\<close> is the constant empty function: whatever the batch,
  it returns the empty list of events, and as a pure function it does nothing else.
\<close>

theorem impossible_travel_empty: "detect_impossible_travel logs = Inr []"
  by (simp add: detect_impossible_travel_def)

subsection \<open>The empty batch\<close>

text \<open>
  C5. On the empty batch every detector of the three modules returns the empty list
  of events and raises nothing; \<^verbatim>\<open>analyze_logs\<close> of the CloudWatch analyzer and of the
  Lambda return the empty dictionary, and the dispatch of \<^verbatim>\<open>main.py\<close> sends nothing.
\<close>

theorem empty_batch_no_events:
  "detect_bulk_downloads thr reg now [] = [] \<and>
   detect_rapid_access rthr win reg now [] = Inr [] \<and>
   detect_abnormal_hours_access reg [] = [] \<and>
   detect_geolocation_anomaly reg now [] = Inr [] \<and>
   analyze_logs thr rthr win reg now [] = Inr [] \<and>
   lambda_detect_bulk_downloads set_list reg now [] = [] \<and>
   lambda_detect_rapid_access reg now [] = Inr [] \<and>
   lambda_detect_abnormal_hours reg now [] = [] \<and>
   lambda_detect_suspicious_user_agents reg now [] = Inr [] \<and>
   lambda_detect_failed_access_attempts reg now [] = [] \<and>
   lambda_analyze_logs set_list reg now [] = Inr [] \<and>
   detect_credential_stuffing [] = Inr [] \<and>
   detect_data_exfiltration [] = Inr [] \<and>
   detect_port_scanning [] = Inr [] \<and>
   detect_time_based_pattern [] = Inr [] \<and>
   detect_impossible_travel [] = Inr [] \<and>
   main_analyze_logs send_alerts email_system slack_system [] = (None, email_system, slack_system)"
  by (simp add: detect_bulk_downloads_def detect_rapid_access_def detect_abnormal_hours_access_def
      detect_geolocation_anomaly_def analyze_logs_def lambda_detect_bulk_downloads_def
      lambda_detect_rapid_access_def lambda_detect_abnormal_hours_def
      lambda_detect_suspicious_user_agents_def lambda_detect_failed_access_attempts_def
      lambda_analyze_logs_def detect_credential_stuffing_def detect_data_exfiltration_def
      detect_port_scanning_def detect_time_based_pattern_def detect_impossible_travel_def
      main_analyze_logs_def collect_def access_times_def)

subsection \<open>Division in the time-based pattern detector\<close>

text \<open>
  C4 fails on the code. Five entries of one address at one instant have gaps of zero
  seconds, so \<^verbatim>\<open>avg_interval\<close> is zero and \<^verbatim>\<open>variance / avg_interval\<close> raises
  \<^verbatim>\<open>ZeroDivisionError\<close>: the detector does not return.
\<close>

theorem beaconing_divides_by_zero:
  "detect_time_based_pattern
     [example_entry 0, example_entry 0, example_entry 0, example_entry 0, example_entry 0] =
   Inl ZeroDivisionError"
  by (simp add: detect_time_based_pattern_def collect_def example_entry_def total_seconds_def
      py_div_def)

subsection \<open>Events of the extended pattern detectors\<close>

lemma init_rejects_source_ip:
  "SecurityEvent_init ((''timestamp'', a) # (''event_type'', b) # (''severity'', c) #
      (''source_ip'', d) # rest) = Inl TypeError"
  by (simp add: SecurityEvent_init_def SecurityEvent_fields_def)

lemma foldl_grouping_replicate:
  "P l \<Longrightarrow>
   foldl (\<lambda>d l. if P l then group_append d (key l) (val l) else d) [(key l, vs)] (replicate n l) =
     [(key l, vs @ replicate n (val l))]"
  by (induction n arbitrary: vs) (auto simp: replicate_app_Cons_same)

lemma collect_replicate:
  "P l \<Longrightarrow> collect P key val (replicate (Suc n) l) = [(key l, replicate (Suc n) (val l))]"
  by (simp add: collect_def foldl_grouping_replicate)

lemma transfer_bytes_foldl:
  "foldl (\<lambda>b t. b + estimated_size) b0 timestamps = b0 + int (length timestamps) * estimated_size"
  by (induction timestamps arbitrary: b0) (auto simp: algebra_simps)

lemma transfer_bytes_length: "transfer_bytes timestamps = int (length timestamps) * estimated_size"
  by (simp add: transfer_bytes_def transfer_bytes_foldl)

lemma exfiltration_loop_result:
  "exfiltration_loop d events =
     (if list_ex (\<lambda>(ip, timestamps). 100 \<le> length timestamps) d then Inl TypeError else Inr events)"
proof (induction d events rule: exfiltration_loop.induct)
  case (1 events)
  show ?case by simp
next
  case (2 ip timestamps d events)
  have size: "(of_int (transfer_bytes timestamps) / (1024 * 1024) :: rat) \<ge> threshold_mb
                \<longleftrightarrow> 100 \<le> length timestamps"
    by (simp add: transfer_bytes_length estimated_size_def threshold_mb_def)
  show ?case
  proof (cases "100 \<le> length timestamps")
    case True
    then show ?thesis
      using size by (simp add: init_rejects_source_ip Let_def)
  next
    case False
    have ih: "exfiltration_loop d events =
      (if list_ex (\<lambda>(ip, timestamps). 100 \<le> length timestamps) d then Inl TypeError else Inr events)"
      using "2.IH"(2) [OF refl refl] size False by simp
    show ?thesis
      using size False by (simp add: Let_def ih)
  qed
qed

text \<open>
  C8 fails on the code. A hundred successful GETs of one address are 100 MiB of
  estimated transfer, the threshold; the detector then calls \<^verbatim>\<open>SecurityEvent\<close> with the
  keywords \<^verbatim>\<open>source_ip\<close> and \<^verbatim>\<open>user_agent\<close>, which the imported dataclass does not have,
  and raises \<^verbatim>\<open>TypeError\<close> in place of the critical event. By \<open>exfiltration_loop_result\<close>
  the detector never returns an event.
\<close>

theorem exfiltration_raises_type_error:
  "transfer_bytes (map g_timestamp (filter successful_get (replicate 100 (example_entry 0)))) =
     100 * 1024 * 1024 \<and>
   detect_data_exfiltration (replicate 100 (example_entry 0)) = Inl TypeError"
proof -
  have s: "successful_get (example_entry 0)"
    by (simp add: successful_get_def example_entry_def)
  have r: "replicate 100 (example_entry 0) = replicate (Suc 99) (example_entry 0)"
    by simp
  have "collect successful_get g_ip g_timestamp (replicate 100 (example_entry 0)) =
          [(g_ip (example_entry 0), replicate (Suc 99) (g_timestamp (example_entry 0)))]"
    unfolding r using s by (rule collect_replicate)
  then have "detect_data_exfiltration (replicate 100 (example_entry 0)) = Inl TypeError"
    by (simp add: detect_data_exfiltration_def exfiltration_loop_result)
  moreover have "transfer_bytes (map g_timestamp (filter successful_get (replicate 100 (example_entry 0)))) =
     100 * 1024 * 1024"
    using s by (simp add: transfer_bytes_length estimated_size_def)
  ultimately show ?thesis by simp
qed

text \<open>The other extended detectors, when they return, have added nothing either.\<close>

lemma credential_loop_result:
  "credential_loop d events = Inr evs \<Longrightarrow> evs = events"
  by (induction d events rule: credential_loop.induct)
     (auto simp: init_rejects_source_ip Let_def split: if_splits)

lemma port_scan_loop_result:
  "port_scan_loop d events = Inr evs \<Longrightarrow> evs = events"
  by (induction d events rule: port_scan_loop.induct)
     (auto simp: init_rejects_source_ip Let_def split: if_splits)

lemma time_pattern_loop_result:
  "time_pattern_loop d events = Inr evs \<Longrightarrow> evs = events"
  by (induction d events rule: time_pattern_loop.induct)
     (auto simp: init_rejects_source_ip Let_def split: if_splits sum.splits)

subsection \<open>Sliding windows\<close>

lemma scan_windows_find:
  assumes "1 \<le> thr" and "\<forall>i \<in> set is. i + nat thr - 1 < length tms"
  shows "scan_windows thr win tms (map int is) =
           Inr (case find (window_qualifies win tms (nat thr)) is of
                  None \<Rightarrow> None
                | Some i \<Rightarrow> Some (tms ! i, tms ! (i + nat thr - 1)))"
  using assms(2)
proof (induction "is")
  case Nil
  show ?case by simp
next
  case (Cons i "is")
  have i: "i + nat thr - 1 < length tms" using Cons.prems by simp
  then have i0: "i < length tms" using assms(1) by linarith
  have a: "py_index tms (int i) = Inr (tms ! i)"
    using i0 by (simp add: py_index_def)
  have "0 \<le> int i + thr - 1" and "int i + thr - 1 < int (length tms)"
    and "nat (int i + thr - 1) = i + nat thr - 1"
    using assms(1) i by linarith+
  then have b: "py_index tms (int i + thr - 1) = Inr (tms ! (i + nat thr - 1))"
    by (simp add: py_index_def)
  have ih: "scan_windows thr win tms (map int is) =
           Inr (case find (window_qualifies win tms (nat thr)) is of
                  None \<Rightarrow> None
                | Some i \<Rightarrow> Some (tms ! i, tms ! (i + nat thr - 1)))"
    using Cons by simp
  show ?case
  proof (cases "window_qualifies win tms (nat thr) i")
    case True
    then have "total_seconds (tms ! (i + nat thr - 1) - tms ! i) \<le> of_int win"
      by (simp add: window_qualifies_def)
    then show ?thesis using True by (simp add: a b)
  next
    case False
    then have "\<not> total_seconds (tms ! (i + nat thr - 1) - tms ! i) \<le> of_int win"
      by (simp add: window_qualifies_def)
    then show ?thesis using False by (simp add: a b ih)
  qed
qed

lemma first_window_spec:
  assumes "1 \<le> thr"
  shows "first_window thr win tms = Inr (spec_first_window (nat thr) win tms)"
proof -
  have "nat (int (length tms) - thr + 1) = length tms + 1 - nat thr"
    using assms by linarith
  then have r: "py_range (int (length tms) - thr + 1) = map int [0..<length tms + 1 - nat thr]"
    by (simp add: py_range_def)
  have "\<forall>i \<in> set [0..<length tms + 1 - nat thr]. i + nat thr - 1 < length tms"
    using assms by auto
  then show ?thesis
    unfolding first_window_def r spec_first_window_def
    by (rule scan_windows_find [OF assms])
qed

lemma rapid_loop_windows:
  assumes "1 \<le> thr"
  shows "distinct (map fst d) \<Longrightarrow>
    \<exists>evs. rapid_loop thr win reg now d events = Inr evs \<and>
      map reported_window (events_for ip evs) =
        map reported_window (events_for ip events) @
        (case map_of d ip of
           None \<Rightarrow> []
         | Some tms \<Rightarrow>
             (case spec_first_window (nat thr) win (sort tms) of None \<Rightarrow> [] | Some w \<Rightarrow> [Some w]))"
proof (induction d arbitrary: events)
  case Nil
  show ?case by simp
next
  case (Cons p d)
  obtain k tms where p: "p = (k, tms)" by (cases p)
  have dd: "distinct (map fst d)" and kd: "k \<notin> fst ` set d" using Cons.prems p by auto
  have none: "k = ip \<Longrightarrow> map_of d ip = None"
    using kd by (simp add: map_of_eq_None_iff)
  show ?case
  proof (cases "spec_first_window (nat thr) win (sort tms)")
    case None
    from Cons.IH [OF dd, of events] obtain evs where
      "rapid_loop thr win reg now d events = Inr evs"
      "map reported_window (events_for ip evs) =
        map reported_window (events_for ip events) @
        (case map_of d ip of
           None \<Rightarrow> []
         | Some tms \<Rightarrow>
             (case spec_first_window (nat thr) win (sort tms) of None \<Rightarrow> [] | Some w \<Rightarrow> [Some w]))"
      by blast
    then show ?thesis
      using p None none by (auto simp: first_window_spec [OF assms])
  next
    case (Some w)
    obtain ws we where w: "w = (ws, we)" by (cases w)
    define ev where "ev = \<lparr>event_type = ''rapid_access'', severity = ''medium'',
              timestamp = now (length events), ip_address = k,
              resource = ''multiple'',
              details = [(''access_count'', DInt thr),
                         (''time_window'', DStr (str_int win @ '' seconds'')),
                         (''first_access'', DTime ws),
                         (''last_access'', DTime we)],
              region = reg\<rparr>"
    have rw: "reported_window ev = Some (ws, we)" and ipk: "ip_address ev = k"
      by (simp_all add: ev_def reported_window_def)
    from Cons.IH [OF dd, of "events @ [ev]"] obtain evs where
      e1: "rapid_loop thr win reg now d (events @ [ev]) = Inr evs" and
      e2: "map reported_window (events_for ip evs) =
        map reported_window (events_for ip (events @ [ev])) @
        (case map_of d ip of
           None \<Rightarrow> []
         | Some tms \<Rightarrow>
             (case spec_first_window (nat thr) win (sort tms) of None \<Rightarrow> [] | Some w \<Rightarrow> [Some w]))"
      by blast
    have step: "rapid_loop thr win reg now (p # d) events = Inr evs"
      using p Some w e1 by (simp add: first_window_spec [OF assms] ev_def)
    show ?thesis
    proof (cases "k = ip")
      case True
      then show ?thesis
        using step e2 p Some w none rw ipk by (simp add: events_for_append) (simp add: events_for_def)
    next
      case False
      then show ?thesis
        using step e2 p ipk by (simp add: events_for_append) (simp add: events_for_def)
    qed
  qed
qed

lemma rapid_loop_at_most_one:
  "rapid_loop thr win reg now d events = Inr evs \<Longrightarrow>
   length (events_for ip evs) \<le> length (events_for ip events) + length (filter (\<lambda>(k, vs). k = ip \<and> True) d)"
proof (induction thr win reg now d events arbitrary: evs rule: rapid_loop.induct)
  case (1 thr win reg now events)
  then show ?case by simp
next
  case (2 thr win reg now k tms d events)
  show ?case
  proof (cases "first_window thr win (sort tms)")
    case (Inl e)
    then show ?thesis using "2.prems" by simp
  next
    case (Inr r)
    show ?thesis
    proof (cases r)
      case None
      then show ?thesis
        using "2.IH"(1) [OF Inr None] "2.prems" Inr by auto
    next
      case (Some w)
      obtain ws we where w: "w = (ws, we)" by (cases w)
      show ?thesis
        using "2.IH"(2) [OF Inr Some w [symmetric]] "2.prems" Inr Some w
        by (auto simp: events_for_append) (auto simp: events_for_def split: if_splits)
    qed
  qed
qed

lemma access_times_lookup:
  "map_of (access_times logs) ip = (if times_of ip logs = [] then None else Some (times_of ip logs))"
  by (simp add: access_times_def times_of_def map_of_collect)

lemma spec_first_window_Nil: "1 \<le> n \<Longrightarrow> spec_first_window n win [] = None"
  by (simp add: spec_first_window_def)

lemma rapid_access_first_window:
  assumes "1 \<le> thr"
  shows "\<exists>evs. detect_rapid_access thr win reg now logs = Inr evs \<and>
           map reported_window (events_for ip evs) =
             (case spec_first_window (nat thr) win (sort (times_of ip logs)) of
                None \<Rightarrow> [] | Some w \<Rightarrow> [Some w])"
proof -
  have d: "distinct (map fst (access_times logs))"
    by (simp add: access_times_def distinct_collect)
  have n: "spec_first_window (nat thr) win [] = None"
    using assms by (simp add: spec_first_window_Nil)
  show ?thesis
    using rapid_loop_windows [OF assms d, of win reg now "[]" ip] n
    by (auto simp: detect_rapid_access_def access_times_lookup events_for_Nil)
qed

lemma rapid_access_at_most_one:
  assumes "detect_rapid_access thr win reg now logs = Inr evs"
  shows "length (events_for ip evs) \<le> 1"
proof -
  have d: "distinct (map fst (access_times logs))"
    by (simp add: access_times_def distinct_collect)
  have "length (filter (\<lambda>(k, vs). k = ip \<and> True) (access_times logs)) \<le> 1"
    unfolding filter_key_distinct [OF d] by (simp split: option.split)
  then show ?thesis
    using rapid_loop_at_most_one [of thr win reg now "access_times logs" "[]" evs ip] assms
    by (simp add: detect_rapid_access_def events_for_Nil)
qed

text \<open>
  Port scanning and credential stuffing do not slide a window. Each tests one window
  per address, from the earliest to the latest of its entries; when that window
  qualifies, the detector calls \<^verbatim>\<open>SecurityEvent\<close> with the keywords the dataclass does
  not have.
\<close>

lemma sorted_hd_least: "sorted ys \<Longrightarrow> ys \<noteq> [] \<Longrightarrow> hd ys = Min (set ys)"
  by (cases ys) (auto intro!: Min_eqI [symmetric])

lemma sorted_last_greatest: "sorted ys \<Longrightarrow> ys \<noteq> [] \<Longrightarrow> last ys = Max (set ys)"
proof (induction ys)
  case Nil
  then show ?case by simp
next
  case (Cons y ys)
  show ?case
  proof (cases "ys = []")
    case True
    then show ?thesis by simp
  next
    case False
    have "last ys = Max (set ys)" using Cons False by simp
    moreover from False obtain x where x: "x \<in> set ys" by (cases ys) auto
    then have "y \<le> x" and "x \<le> Max (set ys)" using Cons.prems by auto
    then have "y \<le> Max (set ys)" by simp
    ultimately show ?thesis
      using False by (simp add: max_def)
  qed
qed

lemma sort_key_first:
  "fs \<noteq> [] \<Longrightarrow> g_timestamp (hd (sort_key g_timestamp fs)) = Min (set (map g_timestamp fs))"
proof -
  assume n: "fs \<noteq> []"
  then have m: "sort_key g_timestamp fs \<noteq> []"
    by (metis length_sort list.size(3) length_0_conv)
  have "hd (map g_timestamp (sort_key g_timestamp fs)) =
          Min (set (map g_timestamp (sort_key g_timestamp fs)))"
    using m by (intro sorted_hd_least) (simp_all add: sorted_sort_key)
  then show ?thesis
    using m by (simp add: hd_map)
qed

lemma sort_key_last:
  "fs \<noteq> [] \<Longrightarrow> g_timestamp (last (sort_key g_timestamp fs)) = Max (set (map g_timestamp fs))"
proof -
  assume n: "fs \<noteq> []"
  then have m: "sort_key g_timestamp fs \<noteq> []"
    by (metis length_sort list.size(3) length_0_conv)
  have "last (map g_timestamp (sort_key g_timestamp fs)) =
          Max (set (map g_timestamp (sort_key g_timestamp fs)))"
    using m by (intro sorted_last_greatest) (simp_all add: sorted_sort_key)
  then show ?thesis
    using m by (simp add: last_map)
qed

lemma sort_key_span:
  "fs \<noteq> [] \<Longrightarrow>
   total_seconds (g_timestamp (last (sort_key g_timestamp fs)) -
                  g_timestamp (hd (sort_key g_timestamp fs))) = span_seconds fs"
  by (simp add: sort_key_first sort_key_last span_seconds_def)

lemma list_ex_collect:
  "list_ex (\<lambda>(k, vs). Q vs) (collect P key val logs) =
   list_ex (\<lambda>k. filter (\<lambda>l. P l \<and> key l = k) logs \<noteq> [] \<and>
                 Q (map val (filter (\<lambda>l. P l \<and> key l = k) logs))) (map key logs)"
proof -
  have m: "(k, vs) \<in> set (collect P key val logs) \<longleftrightarrow>
             map_of (collect P key val logs) k = Some vs" for k vs
    using distinct_collect [of P key val logs] by (auto dest: map_of_SomeD)
  have inkeys: "k \<in> key ` set logs" if "filter (\<lambda>l. P l \<and> key l = k) logs \<noteq> []" for k
  proof -
    from that obtain l where "l \<in> set (filter (\<lambda>l. P l \<and> key l = k) logs)"
      by (cases "filter (\<lambda>l. P l \<and> key l = k) logs") auto
    then show ?thesis by auto
  qed
  show ?thesis
    unfolding list_ex_iff
  proof
    assume "\<exists>p \<in> set (collect P key val logs). (case p of (k, vs) \<Rightarrow> Q vs)"
    then obtain k vs where kv: "(k, vs) \<in> set (collect P key val logs)" and q: "Q vs"
      by auto
    from kv have "map_of (collect P key val logs) k = Some vs" by (simp add: m)
    then have f: "filter (\<lambda>l. P l \<and> key l = k) logs \<noteq> []"
      and v: "vs = map val (filter (\<lambda>l. P l \<and> key l = k) logs)"
      by (auto simp: map_of_collect split: if_splits)
    from inkeys [OF f] f q v
    show "\<exists>k \<in> set (map key logs). filter (\<lambda>l. P l \<and> key l = k) logs \<noteq> [] \<and>
            Q (map val (filter (\<lambda>l. P l \<and> key l = k) logs))"
      by auto
  next
    assume "\<exists>k \<in> set (map key logs). filter (\<lambda>l. P l \<and> key l = k) logs \<noteq> [] \<and>
            Q (map val (filter (\<lambda>l. P l \<and> key l = k) logs))"
    then obtain k where f: "filter (\<lambda>l. P l \<and> key l = k) logs \<noteq> []"
      and q: "Q (map val (filter (\<lambda>l. P l \<and> key l = k) logs))"
      by auto
    from f have "map_of (collect P key val logs) k =
                   Some (map val (filter (\<lambda>l. P l \<and> key l = k) logs))"
      by (simp add: map_of_collect)
    then have "(k, map val (filter (\<lambda>l. P l \<and> key l = k) logs)) \<in> set (collect P key val logs)"
      by (simp add: m)
    with q show "\<exists>p \<in> set (collect P key val logs). (case p of (k, vs) \<Rightarrow> Q vs)"
      by auto
  qed
qed

lemma credential_loop_char:
  "credential_loop d events =
     (if list_ex (\<lambda>(ip, fs). 5 \<le> length fs \<and> span_seconds fs \<le> 60) d
      then Inl TypeError else Inr events)"
proof (induction d events rule: credential_loop.induct)
  case (1 events)
  show ?case by simp
next
  case (2 ip fs d events)
  show ?case
  proof (cases "5 \<le> length fs")
    case False
    then show ?thesis using "2.IH"(3) by simp
  next
    case True
    then have n: "fs \<noteq> []" by auto
    show ?thesis
    proof (cases "span_seconds fs \<le> 60")
      case True
      then show ?thesis
        using \<open>5 \<le> length fs\<close> sort_key_span [OF n]
        by (simp add: init_rejects_source_ip Let_def)
    next
      case False
      have "credential_loop d events =
              (if list_ex (\<lambda>(ip, fs). 5 \<le> length fs \<and> span_seconds fs \<le> 60) d
               then Inl TypeError else Inr events)"
        using "2.IH"(2) [OF \<open>5 \<le> length fs\<close> refl refl refl] False sort_key_span [OF n]
        by simp
      then show ?thesis
        using \<open>5 \<le> length fs\<close> False sort_key_span [OF n] by (simp add: Let_def)
    qed
  qed
qed

lemma port_scan_loop_char:
  "port_scan_loop d events =
     (if list_ex (\<lambda>(ip, as). 20 \<le> card (set (map g_object as)) \<and> span_seconds as \<le> 120) d
      then Inl TypeError else Inr events)"
proof (induction d events rule: port_scan_loop.induct)
  case (1 events)
  show ?case by simp
next
  case (2 ip as d events)
  have c: "length (remdups (map g_object (sort_key g_timestamp as))) = card (set (map g_object as))"
    by (simp add: length_remdups_card_conv)
  show ?case
  proof (cases "20 \<le> card (set (map g_object as))")
    case False
    then show ?thesis using "2.IH"(3) [OF refl refl] c by (simp add: Let_def)
  next
    case True
    then have n: "as \<noteq> []" by auto
    show ?thesis
    proof (cases "span_seconds as \<le> 120")
      case True
      then show ?thesis
        using \<open>20 \<le> card (set (map g_object as))\<close> c sort_key_span [OF n]
        by (simp add: init_rejects_source_ip Let_def)
    next
      case False
      have "port_scan_loop d events =
              (if list_ex (\<lambda>(ip, as). 20 \<le> card (set (map g_object as)) \<and> span_seconds as \<le> 120) d
               then Inl TypeError else Inr events)"
        using "2.IH"(2) [OF refl refl _ refl refl] True False c sort_key_span [OF n]
        by simp
      then show ?thesis
        using True False c sort_key_span [OF n] by (simp add: Let_def)
    qed
  qed
qed

lemma credential_stuffing_whole_group:
  "detect_credential_stuffing glogs =
     (if list_ex (\<lambda>ip. whole_group_stuffing ip glogs) (map g_ip glogs)
      then Inl TypeError else Inr [])"
proof -
  have "list_ex (\<lambda>k. filter (\<lambda>l. g_status l \<in> set [401, 403] \<and> g_ip l = k) glogs \<noteq> [] \<and>
                   5 \<le> length (map id (filter (\<lambda>l. g_status l \<in> set [401, 403] \<and> g_ip l = k) glogs)) \<and>
                   span_seconds (map id (filter (\<lambda>l. g_status l \<in> set [401, 403] \<and> g_ip l = k) glogs)) \<le> 60)
          (map g_ip glogs) =
        list_ex (\<lambda>ip. whole_group_stuffing ip glogs) (map g_ip glogs)"
    by (intro list_ex_cong refl) (auto simp: whole_group_stuffing_def failed_logins_def)
  then show ?thesis
    unfolding detect_credential_stuffing_def credential_loop_char
    using list_ex_collect [of "\<lambda>fs. 5 \<le> length fs \<and> span_seconds fs \<le> 60"
            "\<lambda>l. g_status l \<in> set [401, 403]" g_ip id glogs]
    by simp
qed

lemma port_scanning_whole_group:
  "detect_port_scanning glogs =
     (if list_ex (\<lambda>ip. whole_group_scan ip glogs) (map g_ip glogs)
      then Inl TypeError else Inr [])"
proof -
  have "list_ex (\<lambda>k. filter (\<lambda>l. True \<and> g_ip l = k) glogs \<noteq> [] \<and>
                   20 \<le> card (set (map g_object (map id (filter (\<lambda>l. True \<and> g_ip l = k) glogs)))) \<and>
                   span_seconds (map id (filter (\<lambda>l. True \<and> g_ip l = k) glogs)) \<le> 120)
          (map g_ip glogs) =
        list_ex (\<lambda>ip. whole_group_scan ip glogs) (map g_ip glogs)"
    by (intro list_ex_cong refl) (auto simp: whole_group_scan_def entries_of_def filter_empty_conv)
  then show ?thesis
    unfolding detect_port_scanning_def port_scan_loop_char
    using list_ex_collect [of "\<lambda>as. 20 \<le> card (set (map g_object as)) \<and> span_seconds as \<le> 120"
            "\<lambda>l. True" g_ip id glogs]
    by simp
qed

text \<open>
  Rapid access on \<open>rapid_batch\<close>, with five accesses in sixty seconds: the one event
  reports the window from second 100 to second 104, not the earlier window that starts
  at second 0.
\<close>

lemma rapid_batch_first_window:
  "\<exists>evs. detect_rapid_access 5 60 ''us-east-1'' (frozen_clock 0) rapid_batch = Inr evs \<and>
      map reported_window (events_for ''10.0.0.1'' evs) = [Some (100000000, 104000000)]"
proof -
  have t: "times_of ''10.0.0.1'' rapid_batch =
             [104000000, 0, 100000000, 101000000, 102000000, 103000000]"
    by (simp add: times_of_def rapid_batch_def example_access_def)
  have w: "spec_first_window 5 60 [0, 100000000, 101000000, 102000000, 103000000, 104000000]
             = Some (100000000, 104000000)"
    by (simp add: spec_first_window_def window_qualifies_def total_seconds_def upt_rec)
  show ?thesis
    using rapid_access_first_window [of 5 60 "''us-east-1''" "frozen_clock 0" rapid_batch "''10.0.0.1''"]
    by (simp add: t w)
qed

text \<open>
  The six refused requests of \<open>sub_burst\<close> span an hour: credential stuffing tests that
  one window and returns without an event, although the first five are within four
  seconds.
\<close>

lemma credential_stuffing_sub_burst: "detect_credential_stuffing sub_burst = Inr []"
  unfolding credential_stuffing_whole_group
  by (simp add: whole_group_stuffing_def failed_logins_def span_seconds_def total_seconds_def
      sub_burst_def burst_def failed_login_def)

text \<open>
  C3 fails on the code. The five refused requests of \<open>burst\<close> are within four seconds:
  they are the one window credential stuffing tests for the address, and the first
  window of five within sixty seconds as well. The detector raises \<^verbatim>\<open>TypeError\<close> when it
  builds the event for that window, and returns nothing. So does port scanning on
  \<open>scan_burst\<close>, twenty distinct objects within nineteen seconds. Of the three detectors
  only rapid access reports its first qualifying window
  (\<open>rapid_access_first_window\<close>, \<open>rapid_access_at_most_one\<close>).
\<close>

theorem qualifying_window_raises_type_error:
  "whole_group_stuffing ''10.0.0.1'' burst \<and>
   spec_first_window 5 60 (sort (map g_timestamp (failed_logins ''10.0.0.1'' burst))) =
     Some (0, 4000000) \<and>
   detect_credential_stuffing burst = Inl TypeError \<and>
   whole_group_scan ''10.0.0.1'' scan_burst \<and>
   detect_port_scanning scan_burst = Inl TypeError"
proof -
  have s: "whole_group_stuffing ''10.0.0.1'' burst"
    by (simp add: whole_group_stuffing_def failed_logins_def span_seconds_def total_seconds_def
        burst_def failed_login_def)
  have w: "spec_first_window 5 60 (sort (map g_timestamp (failed_logins ''10.0.0.1'' burst))) =
             Some (0, 4000000)"
    by (simp add: spec_first_window_def window_qualifies_def total_seconds_def upt_rec
        failed_logins_def burst_def failed_login_def)
  have c: "detect_credential_stuffing burst = Inl TypeError"
    by (simp add: detect_credential_stuffing_def collect_def burst_def failed_login_def
        total_seconds_def init_rejects_source_ip)
  have names: "map g_object scan_burst =
      [''object-0'', ''object-1'', ''object-2'', ''object-3'', ''object-4'', ''object-5'',
       ''object-6'', ''object-7'', ''object-8'', ''object-9'', ''object-10'', ''object-11'',
       ''object-12'', ''object-13'', ''object-14'', ''object-15'', ''object-16'',
       ''object-17'', ''object-18'', ''object-19'']"
    by (simp add: scan_burst_def probe_def upt_rec str_nat.simps digit_char_def)
  have times: "map g_timestamp scan_burst =
      [0, 1000000, 2000000, 3000000, 4000000, 5000000, 6000000, 7000000, 8000000, 9000000,
       10000000, 11000000, 12000000, 13000000, 14000000, 15000000, 16000000, 17000000,
       18000000, 19000000]"
    by (simp add: scan_burst_def probe_def upt_rec)
  have all: "entries_of ''10.0.0.1'' scan_burst = scan_burst"
    by (simp add: entries_of_def scan_burst_def probe_def)
  have p: "whole_group_scan ''10.0.0.1'' scan_burst"
    unfolding whole_group_scan_def all span_seconds_def names times
    by (simp add: total_seconds_def)
  have "list_ex (\<lambda>ip. whole_group_scan ip scan_burst) (map g_ip scan_burst)"
    using p by (simp add: scan_burst_def probe_def upt_rec)
  then have d: "detect_port_scanning scan_burst = Inl TypeError"
    by (simp add: port_scanning_whole_group)
  from s w c p d show ?thesis by simp
qed

subsection \<open>Dispatch of alerts\<close>

lemma getattr_source_ip: "getattr e ''source_ip'' = Inl AttributeError"
  by (simp add: getattr_def)

lemma format_event_html_raises: "format_event_html e = Inl AttributeError"
  by (simp add: format_event_html_def getattr_def)

lemma format_event_slack_raises: "format_event_slack e = Inl AttributeError"
  by (simp add: format_event_slack_def getattr_def)

lemma email_send_alert_sends_nothing: "email_send_alert ch e = (False, ch)"
  by (simp add: email_send_alert_def format_event_html_raises getattr_def)

lemma slack_send_alert_sends_nothing: "slack_send_alert ch e = (False, ch)"
  by (simp add: slack_send_alert_def format_event_slack_raises)

lemma immediate_loop_sends_nothing:
  "immediate_loop email_system slack_system es = (email_system, slack_system)"
  by (induction es) (simp_all add: email_send_alert_sends_nothing slack_send_alert_sends_nothing)

text \<open>
  C7 fails on the code. Both formatters read \<^verbatim>\<open>event.source_ip\<close>, which the dataclass
  does not have. For one critical event and both channels configured, each
  \<^verbatim>\<open>send_alert\<close> catches the \<^verbatim>\<open>AttributeError\<close> and returns without calling the service:
  no immediate send, the outboxes stay empty. For two medium events
  \<^verbatim>\<open>send_batch_alert\<close> of the e-mail channel raises it outside its \<^verbatim>\<open>try\<close>, so
  \<^verbatim>\<open>analyze_logs\<close> ends with the exception and no summary is sent on either channel.
\<close>

theorem dispatch_sends_nothing:
  "main_analyze_logs True (configured 202) (configured 200) [example_event ''critical''] =
     (None, configured 202, configured 200) \<and>
   outbox (configured 202) = [] \<and> outbox (configured 200) = [] \<and>
   main_analyze_logs True (configured 202) (configured 200)
       [example_event ''medium'', example_event ''medium''] =
     (Some AttributeError, configured 202, configured 200)"
  by (simp add: main_analyze_logs_def immediate_loop_sends_nothing email_send_batch_alert_def
      configured_def getattr_def)

subsection \<open>The event store\<close>

lemma id_example:
  "event_id timestamp_str (example_event ''high'') = ''bulk_download_1700000000.0_10.0.0.1''"
  by (simp add: event_id_def example_event_def timestamp_str_def frac_digits_def digit_char_def
      str_nat.simps)

text \<open>
  The Lambda's store names the record after the wall clock at the time of the write:
  the same event stored at second 1 and again at second 2 is reported stored both
  times and leaves two records.
\<close>

lemma lambda_store_twice:
  "fst (lambda_store_event_in_dynamodb timestamp_str 1000000 empty_table (example_event ''high'')) = True \<and>
   fst (lambda_store_event_in_dynamodb timestamp_str 2000000
          (snd (lambda_store_event_in_dynamodb timestamp_str 1000000 empty_table (example_event ''high'')))
          (example_event ''high'')) = True \<and>
   card (dom (rows (snd (lambda_store_event_in_dynamodb timestamp_str 2000000
          (snd (lambda_store_event_in_dynamodb timestamp_str 1000000 empty_table (example_event ''high'')))
          (example_event ''high''))))) = 2"
  by (simp add: lambda_store_event_in_dynamodb_def put_item_def empty_table_def
      lambda_event_id_def timestamp_str_def frac_digits_def digit_char_def str_nat.simps example_event_def)

text \<open>
  C1 as stated fails. The analyzer's identity has no window in it: it is built from
  the event's own timestamp, the wall clock at detection. One pass over two curl
  entries of one address, with a clock that goes on by a microsecond, gives two events
  of one type, one address and one analysis window; stored one after the other they
  are two records, where the claim has one identity and one record.
\<close>

theorem store_splits_one_window:
  "\<exists>e1 e2. detect_geolocation_anomaly ''us-east-1'' ticking_clock [curl_entry, curl_entry] = Inr [e1, e2] \<and>
     event_type e1 = event_type e2 \<and> ip_address e1 = ip_address e2 \<and>
     event_id timestamp_str e1 = ''suspicious_user_agent_1700000000.0_10.0.0.1'' \<and>
     event_id timestamp_str e2 = ''suspicious_user_agent_1700000000.000001_10.0.0.1'' \<and>
     card (dom (rows (store_event_in_dynamodb timestamp_str
                        (store_event_in_dynamodb timestamp_str empty_table e1) e2))) = 2"
proof -
  define ev where "ev t =
     \<lparr>event_type = ''suspicious_user_agent'', severity = ''medium'', timestamp = t,
      ip_address = ''10.0.0.1'', resource = ''passwords.txt'',
      details = [(''user_agent'', DStr ''curl/7.68.0''), (''reason'', DStr ''Automated tool detected'')],
      region = ''us-east-1''\<rparr>" for t :: datetime
  have s: "suspicious_agent ''curl/7.68.0''"
    by (simp add: suspicious_agent_def suspicious_patterns_def lower_def lower_char_def)
  have d: "detect_geolocation_anomaly ''us-east-1'' ticking_clock [curl_entry, curl_entry] =
             Inr [ev 1700000000000000, ev 1700000000000001]"
    by (simp add: detect_geolocation_anomaly_def curl_entry_def s ticking_clock_def ev_def)
  have t0: "timestamp_str 1700000000000000 = ''1700000000.0''"
    by (simp add: timestamp_str_def frac_digits_def digit_char_def str_nat.simps)
  have t1: "timestamp_str 1700000000000001 = ''1700000000.000001''"
    by (simp add: timestamp_str_def frac_digits_def digit_char_def str_nat.simps)
  have i0: "event_id timestamp_str (ev 1700000000000000) =
              ''suspicious_user_agent_1700000000.0_10.0.0.1''"
    by (simp add: event_id_def ev_def t0)
  have i1: "event_id timestamp_str (ev 1700000000000001) =
              ''suspicious_user_agent_1700000000.000001_10.0.0.1''"
    by (simp add: event_id_def ev_def t1)
  have c: "card (dom (rows (store_event_in_dynamodb timestamp_str
             (store_event_in_dynamodb timestamp_str empty_table (ev 1700000000000000))
             (ev 1700000000000001)))) = 2"
    by (simp add: store_event_in_dynamodb_def put_item_def empty_table_def i0 i1)
  have "event_type (ev 1700000000000000) = event_type (ev 1700000000000001)"
    and "ip_address (ev 1700000000000000) = ip_address (ev 1700000000000001)"
    by (simp_all add: ev_def)
  with d i0 i1 c show ?thesis by blast
qed

text \<open>
  C1 (as the code has it, CloudWatch analyzer). The identity under which an event is
  kept is the text of its type, of its timestamp in seconds and of its address, joined
  by underscores; two events of one type and one address have the same identity
  exactly when their timestamps print alike. The write is an unconditional put with
  no outcome: when a second event of the same identity is stored after a first on a
  reachable table, the record under that identity is the second event, and the
  identity is the one key the two stores have added.
\<close>

theorem store_event_overwrites:
  "event_id str_seconds e =
     event_type e @ ''_'' @ str_seconds (timestamp e) @ ''_'' @ ip_address e \<and>
   (event_type e' = event_type e \<and> ip_address e' = ip_address e \<longrightarrow>
      (event_id str_seconds e' = event_id str_seconds e) =
      (str_seconds (timestamp e') = str_seconds (timestamp e))) \<and>
   (event_id str_seconds e' = event_id str_seconds e \<and> reachable t \<longrightarrow>
      rows (store_event_in_dynamodb str_seconds (store_event_in_dynamodb str_seconds t e) e')
        (event_id str_seconds e) = Some e' \<and>
      dom (rows (store_event_in_dynamodb str_seconds (store_event_in_dynamodb str_seconds t e) e')) =
        insert (event_id str_seconds e) (dom (rows t)))"
  by (auto simp: store_event_in_dynamodb_def put_item_def event_id_def)

text \<open>
  On the empty table, with Python's rendering of the seconds: the sample event and the
  same event with another resource have the one identity
  \<^verbatim>\<open>bulk_download_1700000000.0_10.0.0.1\<close>, and after the two stores the table holds exactly
  one record, the second event.
\<close>

theorem store_event_overwrites_witness:
  "event_id timestamp_str (example_event ''high'') = ''bulk_download_1700000000.0_10.0.0.1'' \<and>
   event_id timestamp_str ((example_event ''high'')\<lparr>resource := ''other''\<rparr>) =
     ''bulk_download_1700000000.0_10.0.0.1'' \<and>
   rows (store_event_in_dynamodb timestamp_str
           (store_event_in_dynamodb timestamp_str empty_table (example_event ''high''))
           ((example_event ''high'')\<lparr>resource := ''other''\<rparr>))
       ''bulk_download_1700000000.0_10.0.0.1'' = Some ((example_event ''high'')\<lparr>resource := ''other''\<rparr>) \<and>
   dom (rows (store_event_in_dynamodb timestamp_str
           (store_event_in_dynamodb timestamp_str empty_table (example_event ''high''))
           ((example_event ''high'')\<lparr>resource := ''other''\<rparr>))) =
     {''bulk_download_1700000000.0_10.0.0.1''}"
proof -
  have r: "reachable empty_table" and d: "dom (rows empty_table) = {}"
    by (simp_all add: empty_table_def)
  have t: "event_type ((example_event ''high'')\<lparr>resource := ''other''\<rparr>) = event_type (example_event ''high'')"
    "ip_address ((example_event ''high'')\<lparr>resource := ''other''\<rparr>) = ip_address (example_event ''high'')"
    "timestamp ((example_event ''high'')\<lparr>resource := ''other''\<rparr>) = timestamp (example_event ''high'')"
    by simp_all
  note inst = store_event_overwrites
    [of timestamp_str "example_event ''high''" "(example_event ''high'')\<lparr>resource := ''other''\<rparr>"
        empty_table]
  have i: "event_id timestamp_str (example_event ''high'') = ''bulk_download_1700000000.0_10.0.0.1''"
    using inst
    by (simp add: example_event_def timestamp_str_def frac_digits_def digit_char_def str_nat.simps)
  have same: "event_id timestamp_str ((example_event ''high'')\<lparr>resource := ''other''\<rparr>) =
                event_id timestamp_str (example_event ''high'')"
    using inst t by simp
  from inst same r
  have "rows (store_event_in_dynamodb timestamp_str
           (store_event_in_dynamodb timestamp_str empty_table (example_event ''high''))
           ((example_event ''high'')\<lparr>resource := ''other''\<rparr>))
          (event_id timestamp_str (example_event ''high'')) =
          Some ((example_event ''high'')\<lparr>resource := ''other''\<rparr>) \<and>
        dom (rows (store_event_in_dynamodb timestamp_str
           (store_event_in_dynamodb timestamp_str empty_table (example_event ''high''))
           ((example_event ''high'')\<lparr>resource := ''other''\<rparr>))) =
          insert (event_id timestamp_str (example_event ''high'')) (dom (rows empty_table))"
    by blast
  then show ?thesis
    using i same d by simp
qed

subsection \<open>Determinism\<close>

lemma untimed_record:
  "untimed \<lparr>event_type = a, severity = b, timestamp = t, ip_address = c, resource = d,
            details = f, region = g\<rparr> =
     \<lparr>event_type = a, severity = b, timestamp = 0, ip_address = c, resource = d,
      details = f, region = g\<rparr>"
  by (simp add: untimed_def)

lemma untimed_snoc:
  "map untimed events = map untimed events' \<Longrightarrow> untimed e = untimed e' \<Longrightarrow>
   map untimed (events @ [e]) = map untimed (events' @ [e'])"
  by simp

lemma untimed_length:
  "map untimed events = map untimed events' \<Longrightarrow> length events = length events'"
  by (metis length_map)

lemma stamped_Nil: "stamped now []"
  by (simp add: stamped_def)

lemma stamped_snoc:
  "stamped now events \<Longrightarrow> timestamp e = now (length events) \<Longrightarrow> stamped now (events @ [e])"
  by (simp add: stamped_def)

text \<open>The loops of the CloudWatch analyzer.\<close>

lemma bulk_loop_untimed:
  "map untimed events = map untimed events' \<Longrightarrow>
   map untimed (bulk_loop thr reg now d events) = map untimed (bulk_loop thr reg now' d events')"
proof (induction d arbitrary: events events')
  case Nil
  then show ?case by simp
next
  case (Cons p d)
  obtain ip downloads where p: "p = (ip, downloads)" by (cases p)
  show ?case
    unfolding p using Cons.prems by (auto intro!: Cons.IH simp: untimed_record)
qed

lemma bulk_loop_stamped:
  "stamped now events \<Longrightarrow> stamped now (bulk_loop thr reg now d events)"
proof (induction d arbitrary: events)
  case Nil
  then show ?case by simp
next
  case (Cons p d)
  obtain ip downloads where p: "p = (ip, downloads)" by (cases p)
  show ?case
    unfolding p using Cons.prems by (auto intro!: Cons.IH stamped_snoc)
qed

lemma rapid_loop_untimed:
  "map untimed events = map untimed events' \<Longrightarrow>
   map_sum id (map untimed) (rapid_loop thr win reg now d events) =
   map_sum id (map untimed) (rapid_loop thr win reg now' d events')"
proof (induction d arbitrary: events events')
  case Nil
  then show ?case by simp
next
  case (Cons p d)
  obtain ip tms where p: "p = (ip, tms)" by (cases p)
  show ?case
  proof (cases "first_window thr win (sort tms)")
    case (Inl e)
    then show ?thesis unfolding p by simp
  next
    case (Inr r)
    show ?thesis
    proof (cases r)
      case None
      then show ?thesis
        unfolding p using Inr Cons.IH [OF Cons.prems] by simp
    next
      case (Some w)
      obtain ws we where w: "w = (ws, we)" by (cases w)
      have "map untimed (events @
              [\<lparr>event_type = ''rapid_access'', severity = ''medium'',
                timestamp = now (length events), ip_address = ip, resource = ''multiple'',
                details = [(''access_count'', DInt thr),
                           (''time_window'', DStr (str_int win @ '' seconds'')),
                           (''first_access'', DTime ws), (''last_access'', DTime we)],
                region = reg\<rparr>]) =
            map untimed (events' @
              [\<lparr>event_type = ''rapid_access'', severity = ''medium'',
                timestamp = now' (length events'), ip_address = ip, resource = ''multiple'',
                details = [(''access_count'', DInt thr),
                           (''time_window'', DStr (str_int win @ '' seconds'')),
                           (''first_access'', DTime ws), (''last_access'', DTime we)],
                region = reg\<rparr>])"
        using Cons.prems by (simp add: untimed_record)
      from Cons.IH [OF this] show ?thesis
        unfolding p using Inr Some w by simp
    qed
  qed
qed

lemma rapid_loop_stamped:
  "stamped now events \<Longrightarrow> stamped_result now (rapid_loop thr win reg now d events)"
proof (induction d arbitrary: events)
  case Nil
  then show ?case by (simp add: stamped_result_def)
next
  case (Cons p d)
  obtain ip tms where p: "p = (ip, tms)" by (cases p)
  show ?case
  proof (cases "first_window thr win (sort tms)")
    case (Inl e)
    then show ?thesis unfolding p by (simp add: stamped_result_def)
  next
    case (Inr r)
    show ?thesis
    proof (cases r)
      case None
      then show ?thesis
        unfolding p using Inr Cons.IH [OF Cons.prems] by simp
    next
      case (Some w)
      obtain ws we where w: "w = (ws, we)" by (cases w)
      have "stamped now (events @
              [\<lparr>event_type = ''rapid_access'', severity = ''medium'',
                timestamp = now (length events), ip_address = ip, resource = ''multiple'',
                details = [(''access_count'', DInt thr),
                           (''time_window'', DStr (str_int win @ '' seconds'')),
                           (''first_access'', DTime ws), (''last_access'', DTime we)],
                region = reg\<rparr>])"
        using Cons.prems by (simp add: stamped_snoc)
      from Cons.IH [OF this] show ?thesis
        unfolding p using Inr Some w by simp
    qed
  qed
qed

lemma abnormal_loop_times:
  "map timestamp (abnormal_loop reg logs events) = map timestamp events @ abnormal_times logs"
  by (induction logs arbitrary: events) (auto simp: abnormal_times_def split: option.splits)

lemma geolocation_loop_untimed:
  "map untimed events = map untimed events' \<Longrightarrow>
   map_sum id (map untimed) (geolocation_loop reg now logs events) =
   map_sum id (map untimed) (geolocation_loop reg now' logs events')"
proof (induction logs arbitrary: events events')
  case Nil
  then show ?case by simp
next
  case (Cons l logs)
  show ?case
  proof (cases "user_agent l")
    case None
    then show ?thesis by simp
  next
    case (Some ua)
    show ?thesis
    proof (cases "suspicious_agent ua")
      case False
      then show ?thesis
        using Some Cons.IH [OF Cons.prems] by simp
    next
      case True
      have "map untimed (events @
              [\<lparr>event_type = ''suspicious_user_agent'', severity = ''medium'',
                timestamp = now (length events), ip_address = remote_ip l,
                resource = object_name l,
                details = [(''user_agent'', DStr ua), (''reason'', DStr ''Automated tool detected'')],
                region = reg\<rparr>]) =
            map untimed (events' @
              [\<lparr>event_type = ''suspicious_user_agent'', severity = ''medium'',
                timestamp = now' (length events'), ip_address = remote_ip l,
                resource = object_name l,
                details = [(''user_agent'', DStr ua), (''reason'', DStr ''Automated tool detected'')],
                region = reg\<rparr>])"
        using Cons.prems by (simp add: untimed_record)
      from Cons.IH [OF this] show ?thesis
        using Some True by simp
    qed
  qed
qed

lemma geolocation_loop_stamped:
  "stamped now events \<Longrightarrow> stamped_result now (geolocation_loop reg now logs events)"
proof (induction logs arbitrary: events)
  case Nil
  then show ?case by (simp add: stamped_result_def)
next
  case (Cons l logs)
  show ?case
  proof (cases "user_agent l")
    case None
    then show ?thesis by (simp add: stamped_result_def)
  next
    case (Some ua)
    show ?thesis
      using Cons.prems Some by (auto intro!: Cons.IH stamped_snoc)
  qed
qed

lemma detect_bulk_downloads_untimed:
  "map untimed (detect_bulk_downloads thr reg now logs) =
   map untimed (detect_bulk_downloads thr reg now' logs)"
  by (simp add: detect_bulk_downloads_def bulk_loop_untimed)

lemma detect_rapid_access_untimed:
  "map_sum id (map untimed) (detect_rapid_access thr win reg now logs) =
   map_sum id (map untimed) (detect_rapid_access thr win reg now' logs)"
  by (simp add: detect_rapid_access_def rapid_loop_untimed)

lemma detect_geolocation_anomaly_untimed:
  "map_sum id (map untimed) (detect_geolocation_anomaly reg now logs) =
   map_sum id (map untimed) (detect_geolocation_anomaly reg now' logs)"
  by (simp add: detect_geolocation_anomaly_def geolocation_loop_untimed)

text \<open>
  Two calls that agree up to timestamps raise the same exception or return lists that
  agree up to timestamps.
\<close>

lemma map_sum_untimed_cases:
  assumes "map_sum id (map untimed) r = map_sum id (map untimed) r'"
  shows "(\<exists>e. r = Inl e \<and> r' = Inl e) \<or>
         (\<exists>evs evs'. r = Inr evs \<and> r' = Inr evs' \<and> map untimed evs = map untimed evs')"
  using assms by (cases r; cases r') simp_all

lemma analyze_logs_untimed:
  "untimed_except [''abnormal_hours''] (analyze_logs bt rt rw reg now logs) =
   untimed_except [''abnormal_hours''] (analyze_logs bt rt rw reg now' logs)"
proof (cases "logs = []")
  case True
  then show ?thesis by (simp add: analyze_logs_def)
next
  case False
  let ?b = "detect_bulk_downloads bt reg now logs"
  let ?b' = "detect_bulk_downloads bt reg now' logs"
  have b: "map untimed ?b = map untimed ?b'"
    by (rule detect_bulk_downloads_untimed)
  have "map_sum id (map untimed) (detect_rapid_access rt rw reg (later now (length ?b)) logs) =
        map_sum id (map untimed) (detect_rapid_access rt rw reg (later now' (length ?b')) logs)"
    by (rule detect_rapid_access_untimed)
  from map_sum_untimed_cases [OF this] show ?thesis
  proof (elim disjE exE conjE)
    fix e
    assume "detect_rapid_access rt rw reg (later now (length ?b)) logs = Inl e"
      "detect_rapid_access rt rw reg (later now' (length ?b')) logs = Inl e"
    with False show ?thesis
      by (simp add: analyze_logs_def untimed_except_def Let_def)
  next
    fix rapid rapid'
    assume r: "detect_rapid_access rt rw reg (later now (length ?b)) logs = Inr rapid"
      and r': "detect_rapid_access rt rw reg (later now' (length ?b')) logs = Inr rapid'"
      and rr: "map untimed rapid = map untimed rapid'"
    have "map_sum id (map untimed)
            (detect_geolocation_anomaly reg (later now (length ?b + length rapid)) logs) =
          map_sum id (map untimed)
            (detect_geolocation_anomaly reg (later now' (length ?b' + length rapid')) logs)"
      by (rule detect_geolocation_anomaly_untimed)
    from map_sum_untimed_cases [OF this] show ?thesis
    proof (elim disjE exE conjE)
      fix e
      assume "detect_geolocation_anomaly reg (later now (length ?b + length rapid)) logs = Inl e"
        "detect_geolocation_anomaly reg (later now' (length ?b' + length rapid')) logs = Inl e"
      with False r r' show ?thesis
        by (simp add: analyze_logs_def untimed_except_def Let_def)
    next
      fix agents agents'
      assume "detect_geolocation_anomaly reg (later now (length ?b + length rapid)) logs = Inr agents"
        "detect_geolocation_anomaly reg (later now' (length ?b' + length rapid')) logs = Inr agents'"
        "map untimed agents = map untimed agents'"
      with False r r' rr b show ?thesis
        by (simp add: analyze_logs_def untimed_except_def Let_def)
    qed
  qed
qed

text \<open>The loops of the Lambda.\<close>

lemma lambda_bulk_loop_untimed:
  "map untimed events = map untimed events' \<Longrightarrow>
   map untimed (lambda_bulk_loop set_list reg now d events) =
   map untimed (lambda_bulk_loop set_list reg now' d events')"
proof (induction d arbitrary: events events')
  case Nil
  then show ?case by simp
next
  case (Cons p d)
  obtain ip files where p: "p = (ip, files)" by (cases p)
  show ?case
    unfolding p using Cons.prems by (auto intro!: Cons.IH simp: untimed_record)
qed

lemma lambda_bulk_loop_stamped:
  "stamped now events \<Longrightarrow> stamped now (lambda_bulk_loop set_list reg now d events)"
proof (induction d arbitrary: events)
  case Nil
  then show ?case by simp
next
  case (Cons p d)
  obtain ip files where p: "p = (ip, files)" by (cases p)
  show ?case
    unfolding p using Cons.prems by (auto intro!: Cons.IH stamped_snoc)
qed

lemma lambda_rapid_loop_untimed:
  "map untimed events = map untimed events' \<Longrightarrow>
   map_sum id (map untimed) (lambda_rapid_loop reg now d events) =
   map_sum id (map untimed) (lambda_rapid_loop reg now' d events')"
proof (induction d arbitrary: events events')
  case Nil
  then show ?case by simp
next
  case (Cons p d)
  obtain ip tms where p: "p = (ip, tms)" by (cases p)
  show ?case
  proof (cases "scan_windows 10 300 (sort tms) (py_range (int (length tms) - 9))")
    case (Inl e)
    then show ?thesis unfolding p by simp
  next
    case (Inr r)
    show ?thesis
    proof (cases r)
      case None
      then show ?thesis
        unfolding p using Inr Cons.IH [OF Cons.prems] by simp
    next
      case (Some w)
      obtain ws we where w: "w = (ws, we)" by (cases w)
      have "map untimed (events @
              [\<lparr>event_type = ''rapid_access'', severity = ''high'',
                timestamp = now (length events), ip_address = ip, resource = ''multiple'',
                details = [(''access_count'', DInt 10),
                           (''time_window'', DStr ''5 minutes''),
                           (''first_access'', DTime ws), (''last_access'', DTime we)],
                region = reg\<rparr>]) =
            map untimed (events' @
              [\<lparr>event_type = ''rapid_access'', severity = ''high'',
                timestamp = now' (length events'), ip_address = ip, resource = ''multiple'',
                details = [(''access_count'', DInt 10),
                           (''time_window'', DStr ''5 minutes''),
                           (''first_access'', DTime ws), (''last_access'', DTime we)],
                region = reg\<rparr>])"
        using Cons.prems by (simp add: untimed_record)
      from Cons.IH [OF this] show ?thesis
        unfolding p using Inr Some w by simp
    qed
  qed
qed

lemma lambda_rapid_loop_stamped:
  "stamped now events \<Longrightarrow> stamped_result now (lambda_rapid_loop reg now d events)"
proof (induction d arbitrary: events)
  case Nil
  then show ?case by (simp add: stamped_result_def)
next
  case (Cons p d)
  obtain ip tms where p: "p = (ip, tms)" by (cases p)
  show ?case
  proof (cases "scan_windows 10 300 (sort tms) (py_range (int (length tms) - 9))")
    case (Inl e)
    then show ?thesis unfolding p by (simp add: stamped_result_def)
  next
    case (Inr r)
    show ?thesis
    proof (cases r)
      case None
      then show ?thesis
        unfolding p using Inr Cons.IH [OF Cons.prems] by simp
    next
      case (Some w)
      obtain ws we where w: "w = (ws, we)" by (cases w)
      have "stamped now (events @
              [\<lparr>event_type = ''rapid_access'', severity = ''high'',
                timestamp = now (length events), ip_address = ip, resource = ''multiple'',
                details = [(''access_count'', DInt 10),
                           (''time_window'', DStr ''5 minutes''),
                           (''first_access'', DTime ws), (''last_access'', DTime we)],
                region = reg\<rparr>])"
        using Cons.prems by (simp add: stamped_snoc)
      from Cons.IH [OF this] show ?thesis
        unfolding p using Inr Some w by simp
    qed
  qed
qed

lemma lambda_abnormal_loop_untimed:
  "map untimed events = map untimed events' \<Longrightarrow>
   map untimed (lambda_abnormal_loop reg now d events) =
   map untimed (lambda_abnormal_loop reg now' d events')"
proof (induction d arbitrary: events events')
  case Nil
  then show ?case by simp
next
  case (Cons p d)
  obtain ip access_logs where p: "p = (ip, access_logs)" by (cases p)
  show ?case
    unfolding p using Cons.prems by (auto intro!: Cons.IH simp: untimed_record)
qed

lemma lambda_abnormal_loop_stamped:
  "stamped now events \<Longrightarrow> stamped now (lambda_abnormal_loop reg now d events)"
proof (induction d arbitrary: events)
  case Nil
  then show ?case by simp
next
  case (Cons p d)
  obtain ip access_logs where p: "p = (ip, access_logs)" by (cases p)
  show ?case
    unfolding p using Cons.prems by (auto intro!: Cons.IH stamped_snoc)
qed

lemma lambda_agents_loop_untimed:
  "map untimed events = map untimed events' \<Longrightarrow>
   map untimed (lambda_agents_loop reg now d events) =
   map untimed (lambda_agents_loop reg now' d events')"
proof (induction d arbitrary: events events')
  case Nil
  then show ?case by simp
next
  case (Cons p d)
  obtain ip sus_logs where p: "p = (ip, sus_logs)" by (cases p)
  show ?case
    unfolding p using Cons.prems by (auto intro!: Cons.IH simp: untimed_record)
qed

lemma lambda_agents_loop_stamped:
  "stamped now events \<Longrightarrow> stamped now (lambda_agents_loop reg now d events)"
proof (induction d arbitrary: events)
  case Nil
  then show ?case by simp
next
  case (Cons p d)
  obtain ip sus_logs where p: "p = (ip, sus_logs)" by (cases p)
  show ?case
    unfolding p using Cons.prems by (auto intro!: Cons.IH stamped_snoc)
qed

lemma lambda_failed_loop_untimed:
  "map untimed events = map untimed events' \<Longrightarrow>
   map untimed (lambda_failed_loop reg now d events) =
   map untimed (lambda_failed_loop reg now' d events')"
proof (induction d arbitrary: events events')
  case Nil
  then show ?case by simp
next
  case (Cons p d)
  obtain ip failure_logs where p: "p = (ip, failure_logs)" by (cases p)
  show ?case
    unfolding p using Cons.prems by (auto intro!: Cons.IH simp: untimed_record)
qed

lemma lambda_failed_loop_stamped:
  "stamped now events \<Longrightarrow> stamped now (lambda_failed_loop reg now d events)"
proof (induction d arbitrary: events)
  case Nil
  then show ?case by simp
next
  case (Cons p d)
  obtain ip failure_logs where p: "p = (ip, failure_logs)" by (cases p)
  show ?case
    unfolding p using Cons.prems by (auto intro!: Cons.IH stamped_snoc)
qed

lemma lambda_detect_bulk_downloads_untimed:
  "map untimed (lambda_detect_bulk_downloads set_list reg now logs) =
   map untimed (lambda_detect_bulk_downloads set_list reg now' logs)"
  by (simp add: lambda_detect_bulk_downloads_def lambda_bulk_loop_untimed)

lemma lambda_detect_rapid_access_untimed:
  "map_sum id (map untimed) (lambda_detect_rapid_access reg now logs) =
   map_sum id (map untimed) (lambda_detect_rapid_access reg now' logs)"
  by (simp add: lambda_detect_rapid_access_def lambda_rapid_loop_untimed)

lemma lambda_detect_abnormal_hours_untimed:
  "map untimed (lambda_detect_abnormal_hours reg now logs) =
   map untimed (lambda_detect_abnormal_hours reg now' logs)"
  by (simp add: lambda_detect_abnormal_hours_def lambda_abnormal_loop_untimed)

lemma lambda_detect_suspicious_user_agents_untimed:
  "map_sum id (map untimed) (lambda_detect_suspicious_user_agents reg now logs) =
   map_sum id (map untimed) (lambda_detect_suspicious_user_agents reg now' logs)"
  by (simp add: lambda_detect_suspicious_user_agents_def lambda_agents_loop_untimed)

lemma lambda_detect_failed_access_attempts_untimed:
  "map untimed (lambda_detect_failed_access_attempts reg now logs) =
   map untimed (lambda_detect_failed_access_attempts reg now' logs)"
  by (simp add: lambda_detect_failed_access_attempts_def lambda_failed_loop_untimed)

lemma lambda_analyze_logs_untimed:
  "untimed_except [] (lambda_analyze_logs set_list reg now logs) =
   untimed_except [] (lambda_analyze_logs set_list reg now' logs)"
proof (cases "logs = []")
  case True
  then show ?thesis by (simp add: lambda_analyze_logs_def)
next
  case False
  let ?b = "lambda_detect_bulk_downloads set_list reg now logs"
  let ?b' = "lambda_detect_bulk_downloads set_list reg now' logs"
  have b: "map untimed ?b = map untimed ?b'"
    by (rule lambda_detect_bulk_downloads_untimed)
  have "map_sum id (map untimed) (lambda_detect_rapid_access reg (later now (length ?b)) logs) =
        map_sum id (map untimed) (lambda_detect_rapid_access reg (later now' (length ?b')) logs)"
    by (rule lambda_detect_rapid_access_untimed)
  from map_sum_untimed_cases [OF this] show ?thesis
  proof (elim disjE exE conjE)
    fix e
    assume "lambda_detect_rapid_access reg (later now (length ?b)) logs = Inl e"
      "lambda_detect_rapid_access reg (later now' (length ?b')) logs = Inl e"
    with False show ?thesis
      by (simp add: lambda_analyze_logs_def untimed_except_def Let_def)
  next
    fix rapid rapid'
    assume r: "lambda_detect_rapid_access reg (later now (length ?b)) logs = Inr rapid"
      and r': "lambda_detect_rapid_access reg (later now' (length ?b')) logs = Inr rapid'"
      and rr: "map untimed rapid = map untimed rapid'"
    let ?a = "lambda_detect_abnormal_hours reg (later now (length ?b + length rapid)) logs"
    let ?a' = "lambda_detect_abnormal_hours reg (later now' (length ?b' + length rapid')) logs"
    have a: "map untimed ?a = map untimed ?a'"
      by (rule lambda_detect_abnormal_hours_untimed)
    have "map_sum id (map untimed)
            (lambda_detect_suspicious_user_agents reg
               (later now (length ?b + length rapid + length ?a)) logs) =
          map_sum id (map untimed)
            (lambda_detect_suspicious_user_agents reg
               (later now' (length ?b' + length rapid' + length ?a')) logs)"
      by (rule lambda_detect_suspicious_user_agents_untimed)
    from map_sum_untimed_cases [OF this] show ?thesis
    proof (elim disjE exE conjE)
      fix e
      assume "lambda_detect_suspicious_user_agents reg
                (later now (length ?b + length rapid + length ?a)) logs = Inl e"
        "lambda_detect_suspicious_user_agents reg
                (later now' (length ?b' + length rapid' + length ?a')) logs = Inl e"
      with False r r' show ?thesis
        by (simp add: lambda_analyze_logs_def untimed_except_def Let_def)
    next
      fix agents agents'
      assume g: "lambda_detect_suspicious_user_agents reg
                (later now (length ?b + length rapid + length ?a)) logs = Inr agents"
        and g': "lambda_detect_suspicious_user_agents reg
                (later now' (length ?b' + length rapid' + length ?a')) logs = Inr agents'"
        and gg: "map untimed agents = map untimed agents'"
      have f: "map untimed (lambda_detect_failed_access_attempts reg
                 (later now (length ?b + length rapid + length ?a + length agents)) logs) =
               map untimed (lambda_detect_failed_access_attempts reg
                 (later now' (length ?b' + length rapid' + length ?a' + length agents')) logs)"
        by (rule lambda_detect_failed_access_attempts_untimed)
      from False r r' rr b a g g' gg f show ?thesis
        by (simp add: lambda_analyze_logs_def untimed_except_def Let_def)
    qed
  qed
qed

text \<open>
  C6 (as the code has it). Two runs of the full detector set over the same batch, with
  the same thresholds and region, the same order of set iteration in the Lambda, and
  whatever the clocks read, raise the same exceptions or return the same events in the
  same order: the events of the extended pattern detectors and those under
  \<^verbatim>\<open>abnormal_hours\<close> of the CloudWatch analyzer are equal in every field, all others in
  every field but the timestamp. The timestamps that may differ are the readings of
  the wall clock: the \<open>k\<close>-th event a detector creates carries the \<open>k\<close>-th reading of
  its run. The events of the analyzer's abnormal-hours detector carry the times of
  the entries.
\<close>

theorem detection_deterministic_up_to_clock:
  "untimed_run (spec_run_all bt rt rw set_list reg now logs glogs) =
     untimed_run (spec_run_all bt rt rw set_list reg now' logs glogs) \<and>
   stamped now (detect_bulk_downloads bt reg now logs) \<and>
   stamped_result now (detect_rapid_access rt rw reg now logs) \<and>
   stamped_result now (detect_geolocation_anomaly reg now logs) \<and>
   map timestamp (detect_abnormal_hours_access reg logs) = abnormal_times logs \<and>
   stamped now (lambda_detect_bulk_downloads set_list reg now logs) \<and>
   stamped_result now (lambda_detect_rapid_access reg now logs) \<and>
   stamped now (lambda_detect_abnormal_hours reg now logs) \<and>
   stamped_result now (lambda_detect_suspicious_user_agents reg now logs) \<and>
   stamped now (lambda_detect_failed_access_attempts reg now logs)"
proof (intro conjI)
  show "untimed_run (spec_run_all bt rt rw set_list reg now logs glogs) =
          untimed_run (spec_run_all bt rt rw set_list reg now' logs glogs)"
    unfolding spec_run_all_def untimed_run_def
    using analyze_logs_untimed [of bt rt rw reg now logs now']
      lambda_analyze_logs_untimed [of set_list reg now logs now']
    by simp
  show "stamped now (detect_bulk_downloads bt reg now logs)"
    by (simp add: detect_bulk_downloads_def bulk_loop_stamped stamped_Nil)
  show "stamped_result now (detect_rapid_access rt rw reg now logs)"
    by (simp add: detect_rapid_access_def rapid_loop_stamped stamped_Nil)
  show "stamped_result now (detect_geolocation_anomaly reg now logs)"
    by (simp add: detect_geolocation_anomaly_def geolocation_loop_stamped stamped_Nil)
  show "map timestamp (detect_abnormal_hours_access reg logs) = abnormal_times logs"
    by (simp add: detect_abnormal_hours_access_def abnormal_loop_times)
  show "stamped now (lambda_detect_bulk_downloads set_list reg now logs)"
    by (simp add: lambda_detect_bulk_downloads_def lambda_bulk_loop_stamped stamped_Nil)
  show "stamped_result now (lambda_detect_rapid_access reg now logs)"
    by (simp add: lambda_detect_rapid_access_def lambda_rapid_loop_stamped stamped_Nil)
  show "stamped now (lambda_detect_abnormal_hours reg now logs)"
    by (simp add: lambda_detect_abnormal_hours_def lambda_abnormal_loop_stamped stamped_Nil)
  show "stamped_result now (lambda_detect_suspicious_user_agents reg now logs)"
    by (simp add: lambda_detect_suspicious_user_agents_def lambda_agents_loop_stamped stamped_Nil
        stamped_result_def)
  show "stamped now (lambda_detect_failed_access_attempts reg now logs)"
    by (simp add: lambda_detect_failed_access_attempts_def lambda_failed_loop_stamped stamped_Nil)
qed

text \<open>
  C6 as stated fails: on the batch of the one \<open>curl_entry\<close>, a run that reads the clock at
  second 0 and a run that reads it at second 1 return different events.
\<close>

theorem detection_reads_wall_clock:
  "analyze_logs 10 5 60 ''us-east-1'' (frozen_clock 0) [curl_entry] \<noteq>
   analyze_logs 10 5 60 ''us-east-1'' (frozen_clock 1000000) [curl_entry]"
  by (simp add: analyze_logs_def detect_bulk_downloads_def detect_rapid_access_def
      detect_abnormal_hours_access_def detect_geolocation_anomaly_def collect_def
      access_times_def first_window_def py_range_def curl_entry_def hour_def
      suspicious_agent_def suspicious_patterns_def lower_def lower_char_def
      later_def frozen_clock_def)

end
